theory Spec2Isabelle
  imports Main "HOL-Library.Word" "HOL-Library.AList"
begin

unbundle bit_operations_syntax

section \<open>Python values used by both programs\<close>

text \<open>
  Strings are lists of 8-bit characters, read as the code points below 256. Python's
  character classes are written out for that range. Exceptions are values: every
  \<^verbatim>\<open>raise\<close>, failed index, failed key and failed conversion of the source is a
  constructor of \<open>error\<close>.
\<close>

datatype error =
    UnknownRegister string
  | UnknownLabel string
  | InvalidOffsetReg string
  | DivisionByZero
  | NoMainFunction
  | UnexpectedEndOfInput
  | ExpectedType string string
  | ExpectedValue string string
  | UnexpectedToken string
  | IndexError
  | KeyError string
  | ValueError string
  | AttributeError
  | TypeError

definition code_of :: "char \<Rightarrow> nat" where
  "code_of c = of_char c"

definition isspace :: "char \<Rightarrow> bool" where
  "isspace c = (let n = code_of c in
     (9 \<le> n \<and> n \<le> 13) \<or> (28 \<le> n \<and> n \<le> 32) \<or> n = 133 \<or> n = 160)"

definition isdecimal :: "char \<Rightarrow> bool" where
  "isdecimal c = (let n = code_of c in 48 \<le> n \<and> n \<le> 57)"

definition isdigit :: "char \<Rightarrow> bool" where
  "isdigit c = (let n = code_of c in
     (48 \<le> n \<and> n \<le> 57) \<or> n = 178 \<or> n = 179 \<or> n = 185)"

definition isalpha :: "char \<Rightarrow> bool" where
  "isalpha c = (let n = code_of c in
     (65 \<le> n \<and> n \<le> 90) \<or> (97 \<le> n \<and> n \<le> 122) \<or> n = 170 \<or> n = 181 \<or> n = 186 \<or>
     (192 \<le> n \<and> n \<le> 214) \<or> (216 \<le> n \<and> n \<le> 246) \<or> (248 \<le> n \<and> n \<le> 255))"

definition isalnum :: "char \<Rightarrow> bool" where
  "isalnum c = (let n = code_of c in
     isalpha c \<or> isdigit c \<or> (188 \<le> n \<and> n \<le> 190))"

text \<open>The regular-expression class \<^verbatim>\<open>\w\<close> of a Python string pattern.\<close>

definition word_char :: "char \<Rightarrow> bool" where
  "word_char c = (isalnum c \<or> c = CHR ''_'')"

definition strip :: "string \<Rightarrow> string" where
  "strip s = rev (dropWhile isspace (rev (dropWhile isspace s)))"

definition rstrip :: "string \<Rightarrow> string" where
  "rstrip s = rev (dropWhile isspace (rev s))"

definition startswith :: "string \<Rightarrow> string \<Rightarrow> bool" where
  "startswith s p = (take (length p) s = p)"

definition endswith_char :: "string \<Rightarrow> char \<Rightarrow> bool" where
  "endswith_char s c = (case rev s of [] \<Rightarrow> False | x # _ \<Rightarrow> x = c)"

text \<open>\<^verbatim>\<open>s.split()\<close>: the maximal runs of characters that are not white space.\<close>

fun split_ws_from :: "string \<Rightarrow> string \<Rightarrow> string list" where
  "split_ws_from cur [] = (if cur = [] then [] else [cur])"
| "split_ws_from cur (c # cs) =
     (if isspace c then (if cur = [] then split_ws_from [] cs else cur # split_ws_from [] cs)
      else split_ws_from (cur @ [c]) cs)"

definition split_ws :: "string \<Rightarrow> string list" where
  "split_ws s = split_ws_from [] s"

text \<open>\<^verbatim>\<open>s.split(sep)\<close> for a separator of one character: empty fields are kept.\<close>

fun split_on_from :: "char \<Rightarrow> string \<Rightarrow> string \<Rightarrow> string list" where
  "split_on_from sep cur [] = [cur]"
| "split_on_from sep cur (c # cs) =
     (if c = sep then cur # split_on_from sep [] cs else split_on_from sep (cur @ [c]) cs)"

definition split_on :: "char \<Rightarrow> string \<Rightarrow> string list" where
  "split_on sep s = split_on_from sep [] s"

text \<open>\<^verbatim>\<open>s.replace(ab, r)\<close> for a pattern of two characters and a replacement of one.\<close>

fun replace2 :: "char \<Rightarrow> char \<Rightarrow> char \<Rightarrow> string \<Rightarrow> string" where
  "replace2 a b r (x # y # zs) =
     (if x = a \<and> y = b then r # replace2 a b r zs else x # replace2 a b r (y # zs))"
| "replace2 a b r xs = xs"

text \<open>\<^verbatim>\<open>sep.join(xs)\<close> for a separator of one character.\<close>

fun join :: "char \<Rightarrow> string list \<Rightarrow> string" where
  "join sep [] = []"
| "join sep [x] = x"
| "join sep (x # y # ys) = x @ sep # join sep (y # ys)"

text \<open>\<^verbatim>\<open>xs[i]\<close> for a literal index that is not negative.\<close>

definition item :: "'a list \<Rightarrow> nat \<Rightarrow> error + 'a" where
  "item xs i = (if i < length xs then Inr (xs ! i) else Inl IndexError)"

text \<open>\<^verbatim>\<open>xs[i]\<close> for a computed index: a negative index counts from the end.\<close>

definition item_int :: "'a list \<Rightarrow> int \<Rightarrow> error + 'a" where
  "item_int xs i =
     (if 0 \<le> i \<and> i < int (length xs) then Inr (xs ! nat i)
      else if i < 0 \<and> - int (length xs) \<le> i then Inr (xs ! nat (int (length xs) + i))
      else Inl IndexError)"

text \<open>Decimal digits, \<^verbatim>\<open>str(n)\<close> and \<^verbatim>\<open>int(s)\<close>.\<close>

definition digit_char :: "nat \<Rightarrow> char" where
  "digit_char d = char_of (48 + d)"

fun str_nat :: "nat \<Rightarrow> string" where
  "str_nat n = (if n < 10 then [digit_char n] else str_nat (n div 10) @ [digit_char (n mod 10)])"

declare str_nat.simps [simp del]

definition str_int :: "int \<Rightarrow> string" where
  "str_int i = (if i < 0 then CHR ''-'' # str_nat (nat (- i)) else str_nat (nat i))"

definition digits_value :: "string \<Rightarrow> nat" where
  "digits_value ds = foldl (\<lambda>acc c. acc * 10 + (code_of c - 48)) 0 ds"

fun no_double_underscore :: "string \<Rightarrow> bool" where
  "no_double_underscore (x # y # zs) =
     (\<not> (x = CHR ''_'' \<and> y = CHR ''_'') \<and> no_double_underscore (y # zs))"
| "no_double_underscore xs = True"

definition int_literal_body :: "string \<Rightarrow> bool" where
  "int_literal_body b =
     (b \<noteq> [] \<and> isdecimal (hd b) \<and> isdecimal (last b) \<and>
      list_all (\<lambda>c. isdecimal c \<or> c = CHR ''_'') b \<and> no_double_underscore b)"

definition py_int :: "string \<Rightarrow> error + int" where
  "py_int s =
     (let t = strip s;
          neg = (t \<noteq> [] \<and> hd t = CHR ''-'');
          b = (if t \<noteq> [] \<and> (hd t = CHR ''-'' \<or> hd t = CHR ''+'') then tl t else t)
      in if int_literal_body b
         then (let v = int (digits_value (filter (\<lambda>c. c \<noteq> CHR ''_'') b))
               in Inr (if neg then - v else v))
         else Inl (ValueError s))"

text \<open>\<^verbatim>\<open>chr(n)\<close>, for the code points a character of this model can hold.\<close>

definition py_chr :: "int \<Rightarrow> error + char" where
  "py_chr n = (if 0 \<le> n \<and> n < 256 then Inr (char_of (nat n)) else Inl (ValueError []))"

text \<open>A dictionary is an association list; \<open>AList.update\<close> is the assignment \<^verbatim>\<open>d[k] = v\<close>.\<close>

definition dict_get :: "('k \<times> 'v) list \<Rightarrow> 'k \<Rightarrow> 'v \<Rightarrow> 'v" where
  "dict_get d k dflt = (case map_of d k of None \<Rightarrow> dflt | Some v \<Rightarrow> v)"

definition dict_item :: "(string \<times> 'v) list \<Rightarrow> string \<Rightarrow> error + 'v" where
  "dict_item d k = (case map_of d k of None \<Rightarrow> Inl (KeyError k) | Some v \<Rightarrow> Inr v)"

definition dict_has :: "('k \<times> 'v) list \<Rightarrow> 'k \<Rightarrow> bool" where
  "dict_has d k = (map_of d k \<noteq> None)"

section \<open>The simulator (mips_sim.py)\<close>

record sim =
  regs :: "int list"
  memory :: "(int \<times> int) list"
  data_strings :: "(string \<times> string) list"
  labels :: "(string \<times> nat) list"
  pc :: int
  instructions :: "string list"
  running :: bool
  lo :: "int option"
  hi :: "int option"
  stdout :: string

text \<open>
  \<open>lo\<close> and \<open>hi\<close> are attributes that only \<^verbatim>\<open>div\<close> creates (\<^verbatim>\<open>getattr(self, 'lo', 0)\<close>
  reads them): \<open>None\<close> is the attribute not yet set. \<open>stdout\<close> collects what \<^verbatim>\<open>print\<close> writes.
\<close>

definition reg_names :: "(string \<times> nat) list" where
  "reg_names =
    [(''$zero'', 0), (''$at'', 1),
     (''$v0'', 2), (''$v1'', 3),
     (''$a0'', 4), (''$a1'', 5), (''$a2'', 6), (''$a3'', 7),
     (''$t0'', 8), (''$t1'', 9), (''$t2'', 10), (''$t3'', 11),
     (''$t4'', 12), (''$t5'', 13), (''$t6'', 14), (''$t7'', 15),
     (''$s0'', 16), (''$s1'', 17), (''$s2'', 18), (''$s3'', 19),
     (''$s4'', 20), (''$s5'', 21), (''$s6'', 22), (''$s7'', 23),
     (''$t8'', 24), (''$t9'', 25),
     (''$k0'', 26), (''$k1'', 27),
     (''$gp'', 28), (''$sp'', 29), (''$fp'', 30), (''$ra'', 31)]"

definition MIPSInterpreter :: sim where
  "MIPSInterpreter =
     \<lparr>regs = replicate 32 0, memory = [], data_strings = [], labels = [], pc = 0,
      instructions = [], running = True, lo = None, hi = None, stdout = []\<rparr>"

definition get_reg :: "sim \<Rightarrow> string \<Rightarrow> error + int" where
  "get_reg s name =
     (case map_of reg_names name of
        Some idx \<Rightarrow> (if idx = 0 then Inr 0 else item (regs s) idx)
      | None \<Rightarrow> Inl (UnknownRegister name))"

definition set_reg :: "string \<Rightarrow> int \<Rightarrow> sim \<Rightarrow> error + sim" where
  "set_reg name v s =
     (case map_of reg_names name of
        Some idx \<Rightarrow>
          (if idx \<noteq> 0
           then (if idx < length (regs s)
                 then Inr (s\<lparr>regs := (regs s)[idx := v AND 0xFFFFFFFF]\<rparr>)
                 else Inl IndexError)
           else Inr s)
      | None \<Rightarrow> Inr s)"

definition read_mem :: "sim \<Rightarrow> int \<Rightarrow> int" where
  "read_mem s addr =
     fold (\<lambda>i word. word OR push_bit (i * 8) (dict_get (memory s) (addr + int i) 0)) [0..<4] 0"

definition write_mem :: "int \<Rightarrow> int \<Rightarrow> sim \<Rightarrow> sim" where
  "write_mem addr word s =
     fold (\<lambda>i s'. s'\<lparr>memory := AList.update (addr + int i) (drop_bit (i * 8) word AND 0xFF) (memory s')\<rparr>)
       [0..<4] s"

text \<open>
  \<^verbatim>\<open>re.match(r'(-?\d+)\((\$\w+)\)', operand)\<close>: the match starts at the first character and
  may stop before the last. Each repetition is followed by a character outside its class, so
  the longest run is the only match.
\<close>

definition parse_offset_reg :: "string \<Rightarrow> error + (int \<times> string)" where
  "parse_offset_reg operand =
     (let neg = (operand \<noteq> [] \<and> hd operand = CHR ''-'');
          r1 = (if neg then tl operand else operand);
          ds = takeWhile isdecimal r1;
          r2 = dropWhile isdecimal r1
      in if ds = [] then Inl (InvalidOffsetReg operand)
         else (case r2 of
             a # b # r3 \<Rightarrow>
               (let w = takeWhile word_char r3; r4 = dropWhile word_char r3
                in if a = CHR ''('' \<and> b = CHR ''$'' \<and> w \<noteq> [] \<and> r4 \<noteq> [] \<and> hd r4 = CHR '')''
                   then Inr (if neg then - int (digits_value ds) else int (digits_value ds),
                             CHR ''$'' # w)
                   else Inl (InvalidOffsetReg operand))
           | _ \<Rightarrow> Inl (InvalidOffsetReg operand)))"

section \<open>Executing one instruction\<close>

text \<open>
  An instruction either completes (\<open>Ok\<close>, with the state it leaves) or raises
  (\<open>Raise\<close>, with the exception and the state at the moment of the raise).
\<close>

datatype outcome = Ok sim | Raise error sim

definition raising :: "sim \<Rightarrow> error + 'a \<Rightarrow> ('a \<Rightarrow> outcome) \<Rightarrow> outcome" where
  "raising s x f = (case x of Inl e \<Rightarrow> Raise e s | Inr v \<Rightarrow> f v)"

text \<open>The last statement of \<^verbatim>\<open>execute\<close>: \<^verbatim>\<open>self.pc += 1\<close>.\<close>

definition next_pc :: "sim \<Rightarrow> sim" where
  "next_pc s = s\<lparr>pc := pc s + 1\<rparr>"

text \<open>\<^verbatim>\<open>if val & 0x80000000: val = val - 0x100000000\<close>\<close>

definition to_signed :: "int \<Rightarrow> int" where
  "to_signed v = (if v AND 0x80000000 \<noteq> 0 then v - 0x100000000 else v)"

text \<open>
  The branches \<^verbatim>\<open>add\<close>, \<^verbatim>\<open>sub\<close>, \<^verbatim>\<open>mul\<close>, \<^verbatim>\<open>slt\<close>, \<^verbatim>\<open>sltu\<close>, \<^verbatim>\<open>and\<close>, \<^verbatim>\<open>or\<close> share one shape:
  read \<^verbatim>\<open>operands[1]\<close>, read \<^verbatim>\<open>operands[2]\<close>, write \<^verbatim>\<open>operands[0]\<close>. The branches
  \<^verbatim>\<open>addi\<close>, \<^verbatim>\<open>andi\<close>, \<^verbatim>\<open>xori\<close> read \<^verbatim>\<open>operands[1]\<close>, convert \<^verbatim>\<open>operands[2]\<close> and write
  \<^verbatim>\<open>operands[0]\<close>.
\<close>

definition reg_reg_op :: "(int \<Rightarrow> int \<Rightarrow> int) \<Rightarrow> string list \<Rightarrow> sim \<Rightarrow> outcome" where
  "reg_reg_op f operands s =
     raising s (item operands 1) (\<lambda>r1. raising s (get_reg s r1) (\<lambda>val1.
     raising s (item operands 2) (\<lambda>r2. raising s (get_reg s r2) (\<lambda>val2.
     raising s (item operands 0) (\<lambda>rd. raising s (set_reg rd (f val1 val2) s) (\<lambda>s1.
     Ok (next_pc s1)))))))"

definition reg_imm_op :: "(int \<Rightarrow> int \<Rightarrow> int) \<Rightarrow> string list \<Rightarrow> sim \<Rightarrow> outcome" where
  "reg_imm_op f operands s =
     raising s (item operands 1) (\<lambda>r1. raising s (get_reg s r1) (\<lambda>val.
     raising s (item operands 2) (\<lambda>lit. raising s (py_int lit) (\<lambda>imm.
     raising s (item operands 0) (\<lambda>rd. raising s (set_reg rd (f val imm) s) (\<lambda>s1.
     Ok (next_pc s1)))))))"

lemma filter_length_less:
  assumes "x \<in> set xs" and "P x" and "\<not> Q x" and imp: "\<And>y. Q y \<Longrightarrow> P y"
  shows "length (filter Q xs) < length (filter P xs)"
proof -
  have eq: "filter Q xs = filter Q (filter P xs)"
    using imp by (induction xs) auto
  have "x \<in> set (filter P xs)"
    using assms(1,2) by simp
  then have "length (filter Q (filter P xs)) < length (filter P xs)"
    using assms(3) by (rule length_filter_less)
  then show ?thesis
    using eq by simp
qed

lemma dict_get_nonzero_key:
  "dict_get m k (0::int) \<noteq> 0 \<Longrightarrow> \<exists>v. (k, v) \<in> set m"
  by (auto simp: dict_get_def split: option.splits dest: map_of_SomeD)

text \<open>
  The loop of \<^verbatim>\<open>print_str\<close>: it reads bytes upwards from \<^verbatim>\<open>addr\<close> until one is 0. The
  dictionary has finitely many keys and a key that is absent reads as 0, so it ends.
\<close>

function read_chars :: "(int \<times> int) list \<Rightarrow> int \<Rightarrow> int \<Rightarrow> string \<Rightarrow> error + string" where
  "read_chars m addr i chars =
     (let byte = dict_get m (addr + i) 0
      in if byte = 0 then Inr chars
         else (case py_chr byte of
                 Inl e \<Rightarrow> Inl e
               | Inr c \<Rightarrow> read_chars m addr (i + 1) (chars @ [c])))"
  by pat_completeness auto
lemma read_chars_step:
  fixes addr i :: int and m :: "(int \<times> int) list"
  assumes nz: "dict_get m (addr + i) 0 \<noteq> 0"
  shows "length (filter (\<lambda>p. addr + (i + 1) \<le> fst p) m) < length (filter (\<lambda>p. addr + i \<le> fst p) m)"
proof -
  from dict_get_nonzero_key [OF nz] obtain v where v: "(addr + i, v) \<in> set m" ..
  have a: "addr + i \<le> fst (addr + i, v)" by simp
  have b: "\<not> addr + (i + 1) \<le> fst (addr + i, v)" by simp
  have c: "\<And>y :: int \<times> int. addr + (i + 1) \<le> fst y \<Longrightarrow> addr + i \<le> fst y" by linarith
  show ?thesis
    by (rule filter_length_less [where x = "(addr + i, v)" and P = "\<lambda>p. addr + i \<le> fst p"
          and Q = "\<lambda>p. addr + (i + 1) \<le> fst p", OF v a b c])
qed

termination read_chars
  apply (relation "measure (\<lambda>(m, addr, i, chars). length (filter (\<lambda>p. addr + i \<le> fst p) m))")
   apply (rule wf_measure)
  apply (simp only: in_measure prod.case)
  apply (rule read_chars_step)
  apply simp
  done

declare read_chars.simps [simp del]

definition exec_op :: "string \<Rightarrow> string list \<Rightarrow> sim \<Rightarrow> outcome" where
  "exec_op op operands s =
    (if op = ''li'' then
       raising s (item operands 0) (\<lambda>rd. raising s (item operands 1) (\<lambda>lit.
       raising s (py_int lit) (\<lambda>imm. raising s (set_reg rd imm s) (\<lambda>s1.
       Ok (next_pc s1)))))
     else if op = ''la'' then
       raising s (item operands 1) (\<lambda>label.
       if dict_has (data_strings s) label then
         (let addr = 0x10000000 + int (length label) in
          raising s (item operands 0) (\<lambda>rd. raising s (set_reg rd addr s) (\<lambda>s1.
          raising s (dict_item (data_strings s1) label) (\<lambda>string.
          (let m1 = fold (\<lambda>(i, char). AList.update (addr + int i) (int (code_of char)))
                      (List.enumerate 0 string) (memory s1);
               m2 = AList.update (addr + int (length string)) 0 m1
           in Ok (next_pc (s1\<lparr>memory := m2\<rparr>)))))))
       else Raise (UnknownLabel label) s)
     else if op = ''move'' then
       raising s (item operands 1) (\<lambda>r1. raising s (get_reg s r1) (\<lambda>val.
       raising s (item operands 0) (\<lambda>rd. raising s (set_reg rd val s) (\<lambda>s1.
       Ok (next_pc s1)))))
     else if op = ''add'' then reg_reg_op (\<lambda>val1 val2. val1 + val2) operands s
     else if op = ''addi'' then reg_imm_op (\<lambda>val imm. val + imm) operands s
     else if op = ''sub'' then reg_reg_op (\<lambda>val1 val2. val1 - val2) operands s
     else if op = ''mul'' then reg_reg_op (\<lambda>val1 val2. val1 * val2) operands s
     else if op = ''div'' then
       raising s (item operands 0) (\<lambda>r1. raising s (get_reg s r1) (\<lambda>val1.
       raising s (item operands 1) (\<lambda>r2. raising s (get_reg s r2) (\<lambda>val2.
       if val2 = 0 then Raise DivisionByZero s
       else Ok (next_pc (s\<lparr>lo := Some (val1 div val2), hi := Some (val1 mod val2)\<rparr>))))))
     else if op = ''mflo'' then
       raising s (item operands 0) (\<lambda>rd.
       raising s (set_reg rd (case lo s of None \<Rightarrow> 0 | Some v \<Rightarrow> v) s) (\<lambda>s1.
       Ok (next_pc s1)))
     else if op = ''mfhi'' then
       raising s (item operands 0) (\<lambda>rd.
       raising s (set_reg rd (case hi s of None \<Rightarrow> 0 | Some v \<Rightarrow> v) s) (\<lambda>s1.
       Ok (next_pc s1)))
     else if op = ''slt'' then
       reg_reg_op (\<lambda>val1 val2. if to_signed val1 < to_signed val2 then 1 else 0) operands s
     else if op = ''sltu'' then
       reg_reg_op (\<lambda>val1 val2. if val1 < val2 then 1 else 0) operands s
     else if op = ''and'' then reg_reg_op (\<lambda>val1 val2. val1 AND val2) operands s
     else if op = ''andi'' then reg_imm_op (\<lambda>val imm. val AND imm) operands s
     else if op = ''or'' then reg_reg_op (\<lambda>val1 val2. val1 OR val2) operands s
     else if op = ''xori'' then reg_imm_op (\<lambda>val imm. val XOR imm) operands s
     else if op = ''lw'' then
       raising s (item operands 1) (\<lambda>opnd. raising s (parse_offset_reg opnd) (\<lambda>(offset, reg).
       raising s (get_reg s reg) (\<lambda>base.
       (let addr = base + offset in
        raising s (item operands 0) (\<lambda>rd. raising s (set_reg rd (read_mem s addr) s) (\<lambda>s1.
        Ok (next_pc s1)))))))
     else if op = ''sw'' then
       raising s (item operands 1) (\<lambda>opnd. raising s (parse_offset_reg opnd) (\<lambda>(offset, reg).
       raising s (get_reg s reg) (\<lambda>base.
       (let addr = base + offset in
        raising s (item operands 0) (\<lambda>rs. raising s (get_reg s rs) (\<lambda>val.
        Ok (next_pc (write_mem addr val s))))))))
     else if op = ''beq'' then
       raising s (item operands 0) (\<lambda>r1. raising s (get_reg s r1) (\<lambda>val1.
       raising s (item operands 1) (\<lambda>r2. raising s (get_reg s r2) (\<lambda>val2.
       if val1 = val2 then
         raising s (item operands 2) (\<lambda>l. raising s (dict_item (labels s) l) (\<lambda>target.
         Ok (s\<lparr>pc := int target\<rparr>)))
       else Ok (next_pc s)))))
     else if op = ''bne'' then
       raising s (item operands 0) (\<lambda>r1. raising s (get_reg s r1) (\<lambda>val1.
       raising s (item operands 1) (\<lambda>r2. raising s (get_reg s r2) (\<lambda>val2.
       if val1 \<noteq> val2 then
         raising s (item operands 2) (\<lambda>l. raising s (dict_item (labels s) l) (\<lambda>target.
         Ok (s\<lparr>pc := int target\<rparr>)))
       else Ok (next_pc s)))))
     else if op = ''j'' then
       raising s (item operands 0) (\<lambda>l. raising s (dict_item (labels s) l) (\<lambda>target.
       Ok (s\<lparr>pc := int target\<rparr>)))
     else if op = ''jal'' then
       raising s (item operands 0) (\<lambda>callee.
       if callee = ''print_int'' then
         raising s (get_reg s ''$a0'') (\<lambda>val.
         Ok (next_pc (s\<lparr>stdout := stdout s @ str_int (to_signed val)\<rparr>)))
       else if callee = ''print_str'' then
         raising s (get_reg s ''$a0'') (\<lambda>addr.
         raising s (read_chars (memory s) addr 0 []) (\<lambda>chars.
         Ok (next_pc (s\<lparr>stdout := stdout s @ chars\<rparr>))))
       else
         raising s (set_reg ''$ra'' (pc s + 1) s) (\<lambda>s1.
         if dict_has (labels s1) callee then
           raising s (dict_item (labels s1) callee) (\<lambda>target. Ok (s1\<lparr>pc := int target\<rparr>))
         else Ok (next_pc s1)))
     else if op = ''jr'' then
       raising s (item operands 0) (\<lambda>r.
       if r = ''$ra'' then
         raising s (get_reg s ''$ra'') (\<lambda>target.
         if target = 0 then Ok (s\<lparr>running := False\<rparr>) else Ok (s\<lparr>pc := target\<rparr>))
       else Ok (next_pc s))
     else if op = ''nop'' then Ok (next_pc s)
     else Ok (next_pc s))"

text \<open>The head of \<^verbatim>\<open>execute\<close>: the comment is cut off, the text is split into the opcode
  and the operands.\<close>

definition operands_of :: "string list \<Rightarrow> string list" where
  "operands_of ps =
     map strip (filter (\<lambda>opnd. strip opnd \<noteq> []) (concat (map (split_on CHR '','') ps)))"

definition execute :: "string \<Rightarrow> sim \<Rightarrow> outcome" where
  "execute inst0 s =
     (let inst1 = (if CHR ''#'' \<in> set inst0 then takeWhile (\<lambda>c. c \<noteq> CHR ''#'') inst0 else inst0);
          parts = split_ws (strip inst1)
      in if parts = [] then Ok (next_pc s)
         else exec_op (hd parts) (operands_of (tl parts)) s)"

section \<open>The run loop\<close>

datatype run_result = Stopped sim nat | Crashed error sim

definition max_iter :: nat where
  "max_iter = 100000"

text \<open>
  \<open>run_loop s iterations\<close> is the \<^verbatim>\<open>while\<close> loop of \<^verbatim>\<open>run\<close> from the loop state
  \<open>(s, iterations)\<close>; \<open>Stopped\<close> carries the loop state at the exit.
\<close>

function run_loop :: "sim \<Rightarrow> nat \<Rightarrow> run_result" where
  "run_loop s iterations =
     (if running s \<and> iterations < max_iter then
        (if pc s \<ge> int (length (instructions s)) then Stopped s iterations
         else (case item_int (instructions s) (pc s) of
                 Inl e \<Rightarrow> Crashed e s
               | Inr raw \<Rightarrow>
                   (let inst = strip raw in
                    if inst = [] \<or> startswith inst ''#''
                    then run_loop (s\<lparr>pc := pc s + 1\<rparr>) iterations
                    else (case execute inst s of
                            Raise e s' \<Rightarrow> Crashed e s'
                          | Ok s' \<Rightarrow> run_loop s' (iterations + 1)))))
      else Stopped s iterations)"
  by pat_completeness auto
termination
  by (relation "measures [\<lambda>(s, iterations). max_iter - iterations,
                          \<lambda>(s, iterations). nat (int (length (instructions s)) - pc s)]")
     auto

declare run_loop.simps [simp del]

definition run :: "sim \<Rightarrow> run_result" where
  "run s =
     (if \<not> dict_has (labels s) ''main'' then Crashed NoMainFunction s
      else (case dict_item (labels s) ''main'' of
              Inl e \<Rightarrow> Crashed e s
            | Inr m \<Rightarrow> run_loop (s\<lparr>pc := int m\<rparr>) 0))"

section \<open>Loading a program\<close>

text \<open>
  \<^verbatim>\<open>re.match(r'(\w+):\s*\.asciiz\s*"(.*)', orig_line)\<close>: the groups are the label and the
  rest of the line after the opening quote (\<^verbatim>\<open>.\<close> matches every character but a line
  feed).
\<close>

definition asciiz_match :: "string \<Rightarrow> (string \<times> string) option" where
  "asciiz_match l =
     (let w = takeWhile word_char l; r1 = dropWhile word_char l
      in if w = [] \<or> r1 = [] \<or> hd r1 \<noteq> CHR '':'' then None
         else (let r2 = dropWhile isspace (tl r1)
               in if \<not> startswith r2 ''.asciiz'' then None
                  else (let r3 = dropWhile isspace (drop 7 r2)
                        in if r3 = [] \<or> hd r3 \<noteq> CHR 0x22 then None
                           else Some (w, takeWhile (\<lambda>c. c \<noteq> CHR 0x0A) (tl r3)))))"

text \<open>\<^verbatim>\<open>re.match(r'(\w+):', line)\<close>\<close>

definition label_match :: "string \<Rightarrow> string option" where
  "label_match l =
     (let w = takeWhile word_char l; r1 = dropWhile word_char l
      in if w = [] \<or> r1 = [] \<or> hd r1 \<noteq> CHR '':'' then None else Some w)"

text \<open>\<^verbatim>\<open>s.replace('\\n', '\n').replace('\\t', '\t')\<close>\<close>

definition decode_escapes :: "string \<Rightarrow> string" where
  "decode_escapes s =
     replace2 (CHR 0x5C) (CHR ''t'') (CHR 0x09) (replace2 (CHR 0x5C) (CHR ''n'') (CHR 0x0A) s)"

text \<open>The local variables of \<^verbatim>\<open>load_program\<close> and the interpreter it fills.\<close>

record loader =
  in_data :: bool
  in_text :: bool
  current_string_label :: "string option"
  current_string :: string
  machine :: sim

text \<open>\<^verbatim>\<open>if current_string_label:\<close> holds for a label that is neither \<^verbatim>\<open>None\<close> nor empty.\<close>

definition pending :: "loader \<Rightarrow> bool" where
  "pending L = (case current_string_label L of None \<Rightarrow> False | Some l \<Rightarrow> l \<noteq> [])"

definition store_string :: "string \<Rightarrow> string \<Rightarrow> loader \<Rightarrow> loader" where
  "store_string l str L =
     L\<lparr>machine := (machine L)\<lparr>data_strings := AList.update l str (data_strings (machine L))\<rparr>\<rparr>"

definition store_pending :: "loader \<Rightarrow> loader" where
  "store_pending L =
     (case current_string_label L of
        None \<Rightarrow> L
      | Some l \<Rightarrow> store_string l (current_string L) L)"

definition append_instruction :: "string \<Rightarrow> loader \<Rightarrow> loader" where
  "append_instruction inst L =
     L\<lparr>machine := (machine L)\<lparr>instructions := instructions (machine L) @ [inst]\<rparr>\<rparr>"

text \<open>The body of the loop \<^verbatim>\<open>for line in lines\<close>.\<close>

definition load_line :: "string \<Rightarrow> loader \<Rightarrow> loader" where
  "load_line orig_line L =
     (let line = strip orig_line in
      if line = ''.data'' then L\<lparr>in_data := True, in_text := False\<rparr>
      else if line = ''.text'' \<or> startswith line ''.globl'' then
        (let L1 = L\<lparr>in_data := False, in_text := True\<rparr>
         in if pending L1
            then (store_pending L1)\<lparr>current_string_label := None, current_string := []\<rparr>
            else L1)
      else if line = [] \<or> startswith line ''#'' then L
      else if in_data L then
        (case asciiz_match orig_line of
           Some (l, rest) \<Rightarrow>
             (let L1 = (if pending L then store_pending L else L)
              in if endswith_char rest (CHR 0x22)
                 then (store_string l (decode_escapes (butlast rest)) L1)
                        \<lparr>current_string_label := None, current_string := []\<rparr>
                 else L1\<lparr>current_string_label := Some l, current_string := rest @ [CHR 0x0A]\<rparr>)
         | None \<Rightarrow>
             (if pending L then
                (if endswith_char (rstrip orig_line) (CHR 0x22)
                 then (let L1 = L\<lparr>current_string :=
                                   decode_escapes (current_string L @ butlast (rstrip orig_line))\<rparr>
                       in (store_pending L1)\<lparr>current_string_label := None, current_string := []\<rparr>)
                 else L\<lparr>current_string := current_string L @ orig_line @ [CHR 0x0A]\<rparr>)
              else L))
      else if in_text L then
        (if CHR '':'' \<in> set line \<and> \<not> startswith (strip line) ''#'' then
           (case label_match line of
              Some label \<Rightarrow>
                (let L1 = L\<lparr>machine := (machine L)\<lparr>labels :=
                            AList.update label (length (instructions (machine L)))
                              (labels (machine L))\<rparr>\<rparr>;
                     rest = strip (tl (dropWhile (\<lambda>c. c \<noteq> CHR '':'') line))
                 in if rest \<noteq> [] \<and> \<not> startswith rest ''#'' then append_instruction rest L1 else L1)
            | None \<Rightarrow> L)
         else if line \<noteq> [] \<and> \<not> startswith line ''.'' then append_instruction line L
         else L)
      else L)"

definition load_program :: "string \<Rightarrow> sim \<Rightarrow> error + sim" where
  "load_program asm_code s =
     (let L = fold load_line (split_on (CHR 0x0A) asm_code)
                \<lparr>in_data = False, in_text = False, current_string_label = None,
                 current_string = [], machine = s\<rparr>
      in set_reg ''$sp'' 0x7ffffffc (machine L))"

text \<open>\<^verbatim>\<open>main\<close> of mips_sim.py: a fresh interpreter loads the text and runs it.\<close>

definition simulate :: "string \<Rightarrow> run_result" where
  "simulate code =
     (case load_program code MIPSInterpreter of
        Inl e \<Rightarrow> Crashed e MIPSInterpreter
      | Inr s \<Rightarrow> run s)"

section \<open>The lexer (Toycc.py)\<close>

text \<open>
  The value of a token is an \<^verbatim>\<open>int\<close> for a number and a string for every other kind.
  Every \<^verbatim>\<open>self.code[self.pos]\<close> of the source is the checked access \<open>item\<close>, so a read
  past the end of the input would be the value \<open>Inl IndexError\<close>.
\<close>

datatype tok_value = IntV int | StrV string

datatype token = Token (ttype: string) (tvalue: tok_value) (tline: nat)

definition keyword_set :: "string list" where
  "keyword_set = [''int'', ''if'', ''else'', ''while'', ''for'', ''return'', ''void'']"

text \<open>\<^verbatim>\<open>self.code[a:b]\<close>\<close>

definition slice :: "string \<Rightarrow> nat \<Rightarrow> nat \<Rightarrow> string" where
  "slice code a b = take (b - a) (drop a code)"

text \<open>\<^verbatim>\<open>while self.pos < len(self.code) and self.code[self.pos] != '\n': self.pos += 1\<close>\<close>

function skip_comment :: "string \<Rightarrow> nat \<Rightarrow> error + nat" where
  "skip_comment code pos =
     (if pos < length code then
        (case item code pos of
           Inl e \<Rightarrow> Inl e
         | Inr c \<Rightarrow> if c \<noteq> CHR 0x0A then skip_comment code (pos + 1) else Inr pos)
      else Inr pos)"
  by pat_completeness auto
termination
  by (relation "measure (\<lambda>(code, pos). length code - pos)") auto

declare skip_comment.simps [simp del]

text \<open>The loop that collects the digits of a number.\<close>

function scan_number :: "string \<Rightarrow> nat \<Rightarrow> string \<Rightarrow> error + (string \<times> nat)" where
  "scan_number code pos num =
     (if pos < length code then
        (case item code pos of
           Inl e \<Rightarrow> Inl e
         | Inr c \<Rightarrow> if isdigit c then scan_number code (pos + 1) (num @ [c]) else Inr (num, pos))
      else Inr (num, pos))"
  by pat_completeness auto
termination
  by (relation "measure (\<lambda>(code, pos, num). length code - pos)") auto

declare scan_number.simps [simp del]

text \<open>The loop that collects the characters of an identifier.\<close>

function scan_ident :: "string \<Rightarrow> nat \<Rightarrow> string \<Rightarrow> error + (string \<times> nat)" where
  "scan_ident code pos ident =
     (if pos < length code then
        (case item code pos of
           Inl e \<Rightarrow> Inl e
         | Inr c \<Rightarrow>
             if isalnum c \<or> c = CHR ''_'' then scan_ident code (pos + 1) (ident @ [c])
             else Inr (ident, pos))
      else Inr (ident, pos))"
  by pat_completeness auto
termination
  by (relation "measure (\<lambda>(code, pos, ident). length code - pos)") auto

declare scan_ident.simps [simp del]

text \<open>
  The loop that collects a string literal, entered after the opening quote. It ends at a
  closing quote or at the end of the input, whichever comes first.
\<close>

function scan_string :: "string \<Rightarrow> nat \<Rightarrow> string \<Rightarrow> error + (string \<times> nat)" where
  "scan_string code pos string =
     (if pos < length code then
        (case item code pos of
           Inl e \<Rightarrow> Inl e
         | Inr c \<Rightarrow>
             if c \<noteq> CHR 0x22 then
               (if c = CHR 0x5C \<and> pos + 1 < length code then
                  (case item code (pos + 1) of
                     Inl e \<Rightarrow> Inl e
                   | Inr d \<Rightarrow>
                       if d = CHR ''n'' then scan_string code (pos + 1 + 1) (string @ [CHR 0x0A])
                       else scan_string code (pos + 1 + 1) (string @ [d]))
                else scan_string code (pos + 1) (string @ [c]))
             else Inr (string, pos))
      else Inr (string, pos))"
  by pat_completeness auto
termination
  by (relation "measure (\<lambda>(code, pos, string). length code - pos)") auto

declare scan_string.simps [simp del]

lemma skip_comment_mono: "skip_comment code pos = Inr pos' \<Longrightarrow> pos \<le> pos'"
proof (induction code pos rule: skip_comment.induct)
  case (1 code pos)
  then show ?case
    by (subst (asm) (2) skip_comment.simps) (fastforce split: if_splits sum.splits)
qed

lemma scan_number_mono: "scan_number code pos num = Inr (num', pos') \<Longrightarrow> pos \<le> pos'"
proof (induction code pos num rule: scan_number.induct)
  case (1 code pos num)
  then show ?case
    by (subst (asm) (2) scan_number.simps) (fastforce split: if_splits sum.splits)
qed

lemma scan_ident_mono: "scan_ident code pos ident = Inr (ident', pos') \<Longrightarrow> pos \<le> pos'"
proof (induction code pos ident rule: scan_ident.induct)
  case (1 code pos ident)
  then show ?case
    by (subst (asm) (2) scan_ident.simps) (fastforce split: if_splits sum.splits)
qed

lemma scan_string_mono: "scan_string code pos string = Inr (string', pos') \<Longrightarrow> pos \<le> pos'"
proof (induction code pos string rule: scan_string.induct)
  case (1 code pos string)
  then show ?case
    by (subst (asm) (3) scan_string.simps) (fastforce split: if_splits sum.splits)
qed

lemma skip_comment_progress:
  assumes "pos < length code" and "code ! pos \<noteq> CHR 0x0A" and "skip_comment code pos = Inr pos'"
  shows "pos < pos'"
proof -
  have "skip_comment code (pos + 1) = Inr pos'"
    using assms by (subst (asm) skip_comment.simps) (simp add: item_def)
  then show ?thesis using skip_comment_mono by fastforce
qed

lemma scan_number_progress:
  assumes "pos < length code" and "isdigit (code ! pos)" and "scan_number code pos num = Inr (num', pos')"
  shows "pos < pos'"
proof -
  have "scan_number code (pos + 1) (num @ [code ! pos]) = Inr (num', pos')"
    using assms by (subst (asm) scan_number.simps) (simp add: item_def)
  then show ?thesis using scan_number_mono by fastforce
qed

lemma scan_ident_progress:
  assumes "pos < length code" and "isalnum (code ! pos) \<or> code ! pos = CHR ''_''"
    and "scan_ident code pos ident = Inr (ident', pos')"
  shows "pos < pos'"
proof -
  have "scan_ident code (pos + 1) (ident @ [code ! pos]) = Inr (ident', pos')"
    using assms by (subst (asm) scan_ident.simps) (auto simp: item_def)
  then show ?thesis using scan_ident_mono by fastforce
qed

lemma isalpha_isalnum: "isalpha c \<Longrightarrow> isalnum c"
  by (simp add: isalnum_def)

lemma slice_two_head:
  assumes "pos + 1 < length code" and "slice code pos (pos + 2) = [a, b]"
  shows "code ! pos = a"
proof -
  have "take 2 (drop pos code) = [a, b]" using assms(2) by (simp add: slice_def)
  then have "take 2 (drop pos code) ! 0 = a" by simp
  then show ?thesis using assms(1) by simp
qed

text \<open>The loop of \<^verbatim>\<open>tokenize\<close>, from the position, the line and the tokens so far.\<close>

function tokenize_loop :: "string \<Rightarrow> nat \<Rightarrow> nat \<Rightarrow> token list \<Rightarrow> error + token list" where
  "tokenize_loop code pos line tokens =
     (if pos < length code then
        (case item code pos of
           Inl e \<Rightarrow> Inl e
         | Inr c \<Rightarrow>
             if isspace c then
               tokenize_loop code (pos + 1) (if c = CHR 0x0A then line + 1 else line) tokens
             else if pos + 1 < length code \<and> slice code pos (pos + 2) = ''//'' then
               (case skip_comment code pos of
                  Inl e \<Rightarrow> Inl e
                | Inr pos' \<Rightarrow> tokenize_loop code pos' line tokens)
             else if isdigit c then
               (case scan_number code pos [] of
                  Inl e \<Rightarrow> Inl e
                | Inr (num, pos') \<Rightarrow>
                    (case py_int num of
                       Inl e \<Rightarrow> Inl e
                     | Inr v \<Rightarrow>
                         tokenize_loop code pos' line (tokens @ [Token ''NUMBER'' (IntV v) line])))
             else if isalpha c \<or> c = CHR ''_'' then
               (case scan_ident code pos [] of
                  Inl e \<Rightarrow> Inl e
                | Inr (ident, pos') \<Rightarrow>
                    tokenize_loop code pos' line
                      (tokens @ [Token (if ident \<in> set keyword_set then ''KEYWORD'' else ''IDENT'')
                                   (StrV ident) line]))
             else if c = CHR 0x22 then
               (case scan_string code (pos + 1) [] of
                  Inl e \<Rightarrow> Inl e
                | Inr (string, pos') \<Rightarrow>
                    tokenize_loop code (pos' + 1) line (tokens @ [Token ''STRING'' (StrV string) line]))
             else if pos + 1 < length code \<and>
                     slice code pos (pos + 2) \<in> set [''=='', ''!='', ''<='', ''>='', ''++'', ''--''] then
               tokenize_loop code (pos + 2) line
                 (tokens @ [Token ''OP'' (StrV (slice code pos (pos + 2))) line])
             else
               tokenize_loop code (pos + 1) line
                 (if c \<in> set ''+-*/%=<>!'' then tokens @ [Token ''OP'' (StrV [c]) line]
                  else if c \<in> set ''();{},'' then tokens @ [Token ''PUNCT'' (StrV [c]) line]
                  else tokens))
      else Inr tokens)"
  by pat_completeness auto
termination
proof (relation "measure (\<lambda>(code, pos, line, tokens). length code - pos)", goal_cases)
  case 1
  show ?case by simp
next
  case (2 code pos line tokens c)
  then show ?case by auto
next
  case (3 code pos line tokens c pos')
  then have "code ! pos = CHR ''/''"
    using slice_two_head [of pos code "CHR ''/''" "CHR ''/''"] by simp
  then have "pos < pos'"
    using 3 skip_comment_progress [of pos code pos'] by simp
  then show ?case using 3 by auto
next
  case (4 code pos line tokens c x num pos' v)
  then have "pos < pos'"
    using scan_number_progress [of pos code "[]" num pos'] by (simp add: item_def)
  then show ?case using 4 by auto
next
  case (5 code pos line tokens c x ident pos')
  then have "isalnum (code ! pos) \<or> code ! pos = CHR ''_''"
    by (auto simp: item_def isalpha_isalnum)
  then have "pos < pos'"
    using 5 scan_ident_progress [of pos code "[]" ident pos'] by simp
  then show ?case using 5 by auto
next
  case (6 code pos line tokens c x string pos')
  then have "pos + 1 \<le> pos'"
    using scan_string_mono [of code "pos + 1" "[]" string pos'] by simp
  then show ?case using 6 by auto
next
  case (7 code pos line tokens c)
  then show ?case by auto
next
  case (8 code pos line tokens c)
  then show ?case by auto
qed

declare tokenize_loop.simps [simp del]

definition tokenize :: "string \<Rightarrow> error + token list" where
  "tokenize code = tokenize_loop code 0 1 []"

section \<open>The parser (Toycc.py)\<close>

text \<open>
  The tree is typed as the parser builds it: one constructor for each \<^verbatim>\<open>'type'\<close> of node,
  \<open>None\<close> for a field that holds \<^verbatim>\<open>None\<close>. The initialiser of a \<^verbatim>\<open>for\<close> is a declaration or
  an expression.
\<close>

datatype expr =
    Number int
  | String string
  | Var string
  | Assign expr expr
  | BinOp string expr expr
  | PreOp string expr
  | PostOp string expr
  | Call string "expr list"

datatype for_init = InitDeclaration string "expr option" | InitExpression expr

datatype stmt =
    Declaration string "expr option"
  | ExprStmt expr
  | If expr "stmt list" "stmt list option"
  | While expr "stmt list"
  | For "for_init option" "expr option" "expr option" "stmt list"
  | Return "expr option"

datatype func = Function (return_type: string) (fname: string) (fbody: "stmt list")

text \<open>
  The parser is a family of methods that call each other over a shared position. In the
  model a method that re-enters \<^verbatim>\<open>parse_expression\<close> (or \<^verbatim>\<open>parse_statement\<close>) takes that
  parser as its first argument \<open>pe\<close> (or \<open>ps\<close>), and every loop and every re-entry spends one
  unit of fuel. \<open>OutOfFuel\<close> is the model running out, \<open>Failed\<close> is an exception of the
  source, \<open>Parsed\<close> carries the result and the position after it.
\<close>

type_synonym 'a parser = "token list \<Rightarrow> nat \<Rightarrow> 'a"

datatype 'a parsed = OutOfFuel | Failed error | Parsed 'a nat

fun then_parse :: "'a parsed \<Rightarrow> ('a \<Rightarrow> nat \<Rightarrow> 'b parsed) \<Rightarrow> 'b parsed" where
  "then_parse OutOfFuel f = OutOfFuel"
| "then_parse (Failed e) f = Failed e"
| "then_parse (Parsed x pos) f = f x pos"

definition peek :: "token list \<Rightarrow> nat \<Rightarrow> token option" where
  "peek ts pos = (if pos < length ts then Some (ts ! pos) else None)"

text \<open>\<^verbatim>\<open>self.peek() and self.peek().type == ty and self.peek().value == v\<close>\<close>

definition peek_is :: "token list \<Rightarrow> nat \<Rightarrow> string \<Rightarrow> string \<Rightarrow> bool" where
  "peek_is ts pos ty v =
     (case peek ts pos of None \<Rightarrow> False | Some t \<Rightarrow> ttype t = ty \<and> tvalue t = StrV v)"

text \<open>\<^verbatim>\<open>self.peek() and self.peek().type == 'OP' and self.peek().value in vs\<close>\<close>

definition peek_op_in :: "token list \<Rightarrow> nat \<Rightarrow> string list \<Rightarrow> bool" where
  "peek_op_in ts pos vs =
     (case peek ts pos of
        None \<Rightarrow> False
      | Some t \<Rightarrow> ttype t = ''OP'' \<and> (case tvalue t of StrV v \<Rightarrow> v \<in> set vs | IntV i \<Rightarrow> False))"

text \<open>The text of a token's value inside a message, as an f-string formats it.\<close>

definition value_text :: "tok_value \<Rightarrow> string" where
  "value_text v = (case v of StrV s \<Rightarrow> s | IntV i \<Rightarrow> str_int i)"

definition consume :: "token list \<Rightarrow> nat \<Rightarrow> string option \<Rightarrow> string option \<Rightarrow> token parsed" where
  "consume ts pos expected_type expected_value =
     (if pos \<ge> length ts then Failed UnexpectedEndOfInput
      else (let token = ts ! pos in
        if (case expected_type of None \<Rightarrow> False | Some ty \<Rightarrow> ty \<noteq> [] \<and> ttype token \<noteq> ty)
        then Failed (ExpectedType (the expected_type) (ttype token))
        else if (case expected_value of None \<Rightarrow> False | Some v \<Rightarrow> v \<noteq> [] \<and> tvalue token \<noteq> StrV v)
        then Failed (ExpectedValue (the expected_value) (value_text (tvalue token)))
        else Parsed token (pos + 1)))"

text \<open>
  The fields of the tree are typed, so the value of a token enters it through one of these:
  a \<^verbatim>\<open>NUMBER\<close> of the lexer holds an \<^verbatim>\<open>int\<close> and every other token a string. A token list
  that breaks this is refused with \<open>TypeError\<close>.
\<close>

definition int_value :: "token \<Rightarrow> nat \<Rightarrow> int parsed" where
  "int_value t pos = (case tvalue t of IntV i \<Rightarrow> Parsed i pos | StrV s \<Rightarrow> Failed TypeError)"

definition str_value :: "token \<Rightarrow> nat \<Rightarrow> string parsed" where
  "str_value t pos = (case tvalue t of StrV s \<Rightarrow> Parsed s pos | IntV i \<Rightarrow> Failed TypeError)"

text \<open>The loop that collects the arguments of a call after the first.\<close>

fun call_args_loop :: "(expr parsed) parser \<Rightarrow> nat \<Rightarrow> token list \<Rightarrow> expr list \<Rightarrow> nat \<Rightarrow> (expr list) parsed" where
  "call_args_loop pe 0 ts args pos = OutOfFuel"
| "call_args_loop pe (Suc n) ts args pos =
     (if peek_is ts pos ''PUNCT'' '','' then
        then_parse (consume ts pos (Some ''PUNCT'') (Some '','')) (\<lambda>tk p1.
        then_parse (pe ts p1) (\<lambda>a p2.
        call_args_loop pe n ts (args @ [a]) p2))
      else Parsed args pos)"

definition parse_primary :: "(expr parsed) parser \<Rightarrow> nat \<Rightarrow> token list \<Rightarrow> nat \<Rightarrow> expr parsed" where
  "parse_primary pe n ts pos =
     (case peek ts pos of
        None \<Rightarrow> Failed AttributeError
      | Some token \<Rightarrow>
          if ttype token = ''NUMBER'' then
            then_parse (consume ts pos None None) (\<lambda>tk p1.
            then_parse (int_value token p1) (\<lambda>v p1. Parsed (Number v) p1))
          else if ttype token = ''STRING'' then
            then_parse (consume ts pos None None) (\<lambda>tk p1.
            then_parse (str_value token p1) (\<lambda>v p1. Parsed (String v) p1))
          else if ttype token = ''IDENT'' then
            then_parse (consume ts pos None None) (\<lambda>name p1.
            then_parse (str_value name p1) (\<lambda>name_value p1.
            if peek_is ts p1 ''PUNCT'' ''('' then
              then_parse (consume ts p1 (Some ''PUNCT'') (Some ''('')) (\<lambda>tk p2.
              then_parse
                (if \<not> peek_is ts p2 ''PUNCT'' '')'' then
                   then_parse (pe ts p2) (\<lambda>a p3. call_args_loop pe n ts [a] p3)
                 else Parsed [] p2) (\<lambda>args p4.
              then_parse (consume ts p4 (Some ''PUNCT'') (Some '')'')) (\<lambda>tk p5.
              Parsed (Call name_value args) p5)))
            else Parsed (Var name_value) p1))
          else if ttype token = ''PUNCT'' \<and> tvalue token = StrV ''('' then
            then_parse (consume ts pos (Some ''PUNCT'') (Some ''('')) (\<lambda>tk p1.
            then_parse (pe ts p1) (\<lambda>e p2.
            then_parse (consume ts p2 (Some ''PUNCT'') (Some '')'')) (\<lambda>tk p3.
            Parsed e p3)))
          else Failed (UnexpectedToken (ttype token)))"

definition parse_unary :: "(expr parsed) parser \<Rightarrow> nat \<Rightarrow> token list \<Rightarrow> nat \<Rightarrow> expr parsed" where
  "parse_unary pe n ts pos =
     (if peek_op_in ts pos [''++'', ''--''] then
        then_parse (consume ts pos (Some ''OP'') None) (\<lambda>tk p1.
        then_parse (str_value tk p1) (\<lambda>op p1.
        then_parse (parse_primary pe n ts p1) (\<lambda>operand p2.
        Parsed (PreOp op operand) p2)))
      else
        then_parse (parse_primary pe n ts pos) (\<lambda>e p1.
        if peek_op_in ts p1 [''++'', ''--''] then
          then_parse (consume ts p1 (Some ''OP'') None) (\<lambda>tk p2.
          then_parse (str_value tk p2) (\<lambda>op p2.
          Parsed (PostOp op e) p2))
        else Parsed e p1))"

text \<open>
  The three loops of the binary operators have one shape: while the next token is one
  of the level's operators, consume it, parse an operand of the next level and fold it
  into \<open>left\<close>.
\<close>

fun multiplicative_loop :: "(expr parsed) parser \<Rightarrow> nat \<Rightarrow> nat \<Rightarrow> token list \<Rightarrow> expr \<Rightarrow> nat \<Rightarrow> expr parsed" where
  "multiplicative_loop pe n 0 ts left pos = OutOfFuel"
| "multiplicative_loop pe n (Suc k) ts left pos =
     (if peek_op_in ts pos [''*'', ''/'', ''%''] then
        then_parse (consume ts pos (Some ''OP'') None) (\<lambda>tk p1.
        then_parse (str_value tk p1) (\<lambda>op p1.
        then_parse (parse_unary pe n ts p1) (\<lambda>right p2.
        multiplicative_loop pe n k ts (BinOp op left right) p2)))
      else Parsed left pos)"

definition parse_multiplicative :: "(expr parsed) parser \<Rightarrow> nat \<Rightarrow> token list \<Rightarrow> nat \<Rightarrow> expr parsed" where
  "parse_multiplicative pe n ts pos =
     then_parse (parse_unary pe n ts pos) (\<lambda>left p1. multiplicative_loop pe n n ts left p1)"

fun additive_loop :: "(expr parsed) parser \<Rightarrow> nat \<Rightarrow> nat \<Rightarrow> token list \<Rightarrow> expr \<Rightarrow> nat \<Rightarrow> expr parsed" where
  "additive_loop pe n 0 ts left pos = OutOfFuel"
| "additive_loop pe n (Suc k) ts left pos =
     (if peek_op_in ts pos [''+'', ''-''] then
        then_parse (consume ts pos (Some ''OP'') None) (\<lambda>tk p1.
        then_parse (str_value tk p1) (\<lambda>op p1.
        then_parse (parse_multiplicative pe n ts p1) (\<lambda>right p2.
        additive_loop pe n k ts (BinOp op left right) p2)))
      else Parsed left pos)"

definition parse_additive :: "(expr parsed) parser \<Rightarrow> nat \<Rightarrow> token list \<Rightarrow> nat \<Rightarrow> expr parsed" where
  "parse_additive pe n ts pos =
     then_parse (parse_multiplicative pe n ts pos) (\<lambda>left p1. additive_loop pe n n ts left p1)"

fun comparison_loop :: "(expr parsed) parser \<Rightarrow> nat \<Rightarrow> nat \<Rightarrow> token list \<Rightarrow> expr \<Rightarrow> nat \<Rightarrow> expr parsed" where
  "comparison_loop pe n 0 ts left pos = OutOfFuel"
| "comparison_loop pe n (Suc k) ts left pos =
     (if peek_op_in ts pos [''<'', ''>'', ''=='', ''!='', ''<='', ''>=''] then
        then_parse (consume ts pos (Some ''OP'') None) (\<lambda>tk p1.
        then_parse (str_value tk p1) (\<lambda>op p1.
        then_parse (parse_additive pe n ts p1) (\<lambda>right p2.
        comparison_loop pe n k ts (BinOp op left right) p2)))
      else Parsed left pos)"

definition parse_comparison :: "(expr parsed) parser \<Rightarrow> nat \<Rightarrow> token list \<Rightarrow> nat \<Rightarrow> expr parsed" where
  "parse_comparison pe n ts pos =
     then_parse (parse_additive pe n ts pos) (\<lambda>left p1. comparison_loop pe n n ts left p1)"

fun parse_expression :: "nat \<Rightarrow> token list \<Rightarrow> nat \<Rightarrow> expr parsed" where
  "parse_expression 0 ts pos = OutOfFuel"
| "parse_expression (Suc n) ts pos =
     then_parse (parse_comparison (\<lambda>ts' pos'. parse_expression n ts' pos') n ts pos) (\<lambda>e p1.
       if peek_is ts p1 ''OP'' ''='' then
         then_parse (consume ts p1 (Some ''OP'') (Some ''='')) (\<lambda>tk p2.
         then_parse (parse_expression n ts p2) (\<lambda>right p3.
         Parsed (Assign e right) p3))
       else Parsed e p1)"

definition parse_declaration :: "nat \<Rightarrow> token list \<Rightarrow> nat \<Rightarrow> (string \<times> expr option) parsed" where
  "parse_declaration n ts pos =
     then_parse (consume ts pos (Some ''KEYWORD'') (Some ''int'')) (\<lambda>tk p1.
     then_parse (consume ts p1 (Some ''IDENT'') None) (\<lambda>name p2.
     then_parse (str_value name p2) (\<lambda>name_value p2.
     then_parse
       (if peek_is ts p2 ''OP'' ''='' then
          then_parse (consume ts p2 (Some ''OP'') (Some ''='')) (\<lambda>tk p3.
          then_parse (parse_expression n ts p3) (\<lambda>e p4. Parsed (Some e) p4))
        else Parsed None p2) (\<lambda>init p5.
     then_parse (consume ts p5 (Some ''PUNCT'') (Some '';'')) (\<lambda>tk p6.
     Parsed (name_value, init) p6)))))"

definition parse_return :: "nat \<Rightarrow> token list \<Rightarrow> nat \<Rightarrow> stmt parsed" where
  "parse_return n ts pos =
     then_parse (consume ts pos (Some ''KEYWORD'') (Some ''return'')) (\<lambda>tk p1.
     then_parse
       (if \<not> peek_is ts p1 ''PUNCT'' '';'' then
          then_parse (parse_expression n ts p1) (\<lambda>e p2. Parsed (Some e) p2)
        else Parsed None p1) (\<lambda>v p3.
     then_parse (consume ts p3 (Some ''PUNCT'') (Some '';'')) (\<lambda>tk p4.
     Parsed (Return v) p4)))"

definition parse_expression_statement :: "nat \<Rightarrow> token list \<Rightarrow> nat \<Rightarrow> stmt parsed" where
  "parse_expression_statement n ts pos =
     then_parse (parse_expression n ts pos) (\<lambda>e p1.
     then_parse (consume ts p1 (Some ''PUNCT'') (Some '';'')) (\<lambda>tk p2.
     Parsed (ExprStmt e) p2))"

text \<open>
  \<^verbatim>\<open>while not (self.peek() and ... == '}'): body.append(self.parse_statement())\<close>: at the
  end of the input the loop goes on and \<^verbatim>\<open>parse_statement\<close> raises.
\<close>

fun statements_loop :: "(stmt parsed) parser \<Rightarrow> nat \<Rightarrow> token list \<Rightarrow> stmt list \<Rightarrow> nat \<Rightarrow> (stmt list) parsed" where
  "statements_loop ps 0 ts body pos = OutOfFuel"
| "statements_loop ps (Suc n) ts body pos =
     (if \<not> peek_is ts pos ''PUNCT'' ''}'' then
        then_parse (ps ts pos) (\<lambda>st p1. statements_loop ps n ts (body @ [st]) p1)
      else Parsed body pos)"

text \<open>The body of an \<^verbatim>\<open>if\<close>, \<^verbatim>\<open>else\<close>, \<^verbatim>\<open>while\<close> or \<^verbatim>\<open>for\<close>: a block in braces or one statement.\<close>

definition parse_block :: "(stmt parsed) parser \<Rightarrow> nat \<Rightarrow> token list \<Rightarrow> nat \<Rightarrow> (stmt list) parsed" where
  "parse_block ps n ts pos =
     (if peek_is ts pos ''PUNCT'' ''{'' then
        then_parse (consume ts pos (Some ''PUNCT'') (Some ''{'')) (\<lambda>tk p1.
        then_parse (statements_loop ps n ts [] p1) (\<lambda>body p2.
        then_parse (consume ts p2 (Some ''PUNCT'') (Some ''}'')) (\<lambda>tk p3.
        Parsed body p3)))
      else then_parse (ps ts pos) (\<lambda>st p1. Parsed [st] p1))"

definition parse_if :: "(stmt parsed) parser \<Rightarrow> nat \<Rightarrow> token list \<Rightarrow> nat \<Rightarrow> stmt parsed" where
  "parse_if ps n ts pos =
     then_parse (consume ts pos (Some ''KEYWORD'') (Some ''if'')) (\<lambda>tk p1.
     then_parse (consume ts p1 (Some ''PUNCT'') (Some ''('')) (\<lambda>tk p2.
     then_parse (parse_expression n ts p2) (\<lambda>condition p3.
     then_parse (consume ts p3 (Some ''PUNCT'') (Some '')'')) (\<lambda>tk p4.
     then_parse (parse_block ps n ts p4) (\<lambda>then_body p5.
     if peek_is ts p5 ''KEYWORD'' ''else'' then
       then_parse (consume ts p5 (Some ''KEYWORD'') (Some ''else'')) (\<lambda>tk p6.
       then_parse (parse_block ps n ts p6) (\<lambda>else_body p7.
       Parsed (If condition then_body (Some else_body)) p7))
     else Parsed (If condition then_body None) p5)))))"

definition parse_while :: "(stmt parsed) parser \<Rightarrow> nat \<Rightarrow> token list \<Rightarrow> nat \<Rightarrow> stmt parsed" where
  "parse_while ps n ts pos =
     then_parse (consume ts pos (Some ''KEYWORD'') (Some ''while'')) (\<lambda>tk p1.
     then_parse (consume ts p1 (Some ''PUNCT'') (Some ''('')) (\<lambda>tk p2.
     then_parse (parse_expression n ts p2) (\<lambda>condition p3.
     then_parse (consume ts p3 (Some ''PUNCT'') (Some '')'')) (\<lambda>tk p4.
     then_parse (parse_block ps n ts p4) (\<lambda>body p5.
     Parsed (While condition body) p5)))))"

definition parse_for :: "(stmt parsed) parser \<Rightarrow> nat \<Rightarrow> token list \<Rightarrow> nat \<Rightarrow> stmt parsed" where
  "parse_for ps n ts pos =
     then_parse (consume ts pos (Some ''KEYWORD'') (Some ''for'')) (\<lambda>tk p1.
     then_parse (consume ts p1 (Some ''PUNCT'') (Some ''('')) (\<lambda>tk p2.
     then_parse
       (if \<not> peek_is ts p2 ''PUNCT'' '';'' then
          (case peek ts p2 of
             None \<Rightarrow> Failed AttributeError
           | Some t \<Rightarrow>
               if ttype t = ''KEYWORD'' \<and> tvalue t = StrV ''int'' then
                 then_parse (parse_declaration n ts p2) (\<lambda>(name, init) p3.
                 Parsed (Some (InitDeclaration name init)) p3)
               else
                 then_parse (parse_expression n ts p2) (\<lambda>e p3.
                 then_parse (consume ts p3 (Some ''PUNCT'') (Some '';'')) (\<lambda>tk p4.
                 Parsed (Some (InitExpression e)) p4)))
        else then_parse (consume ts p2 (Some ''PUNCT'') (Some '';'')) (\<lambda>tk p3. Parsed None p3))
       (\<lambda>init p5.
     then_parse
       (if \<not> peek_is ts p5 ''PUNCT'' '';'' then
          then_parse (parse_expression n ts p5) (\<lambda>e p6. Parsed (Some e) p6)
        else Parsed None p5) (\<lambda>condition p7.
     then_parse (consume ts p7 (Some ''PUNCT'') (Some '';'')) (\<lambda>tk p8.
     then_parse
       (if \<not> peek_is ts p8 ''PUNCT'' '')'' then
          then_parse (parse_expression n ts p8) (\<lambda>e p9. Parsed (Some e) p9)
        else Parsed None p8) (\<lambda>update p10.
     then_parse (consume ts p10 (Some ''PUNCT'') (Some '')'')) (\<lambda>tk p11.
     then_parse (parse_block ps n ts p11) (\<lambda>body p12.
     Parsed (For init condition update body) p12))))))))"

fun parse_statement :: "nat \<Rightarrow> token list \<Rightarrow> nat \<Rightarrow> stmt parsed" where
  "parse_statement 0 ts pos = OutOfFuel"
| "parse_statement (Suc n) ts pos =
     (case peek ts pos of
        None \<Rightarrow> Failed AttributeError
      | Some token \<Rightarrow>
          if ttype token = ''KEYWORD'' \<and> tvalue token = StrV ''int'' then
            then_parse (parse_declaration n ts pos) (\<lambda>(name, init) p1.
            Parsed (Declaration name init) p1)
          else if ttype token = ''KEYWORD'' \<and> tvalue token = StrV ''if'' then
            parse_if (\<lambda>ts' pos'. parse_statement n ts' pos') n ts pos
          else if ttype token = ''KEYWORD'' \<and> tvalue token = StrV ''while'' then
            parse_while (\<lambda>ts' pos'. parse_statement n ts' pos') n ts pos
          else if ttype token = ''KEYWORD'' \<and> tvalue token = StrV ''for'' then
            parse_for (\<lambda>ts' pos'. parse_statement n ts' pos') n ts pos
          else if ttype token = ''KEYWORD'' \<and> tvalue token = StrV ''return'' then
            parse_return n ts pos
          else parse_expression_statement n ts pos)"

text \<open>\<^verbatim>\<open>while self.peek() and not (... == ')'): self.consume()\<close>: the parameters are skipped.\<close>

function skip_params :: "token list \<Rightarrow> nat \<Rightarrow> nat" where
  "skip_params ts pos =
     (if pos < length ts \<and> \<not> peek_is ts pos ''PUNCT'' '')'' then skip_params ts (pos + 1) else pos)"
  by pat_completeness auto
termination
  by (relation "measure (\<lambda>(ts, pos). length ts - pos)") auto

declare skip_params.simps [simp del]

definition parse_function :: "nat \<Rightarrow> token list \<Rightarrow> nat \<Rightarrow> func parsed" where
  "parse_function n ts pos =
     then_parse (consume ts pos (Some ''KEYWORD'') None) (\<lambda>rt p1.
     then_parse (str_value rt p1) (\<lambda>rt_value p1.
     then_parse (consume ts p1 (Some ''IDENT'') None) (\<lambda>name p2.
     then_parse (str_value name p2) (\<lambda>name_value p2.
     then_parse (consume ts p2 (Some ''PUNCT'') (Some ''('')) (\<lambda>tk p3.
     then_parse (consume ts (skip_params ts p3) (Some ''PUNCT'') (Some '')'')) (\<lambda>tk p4.
     then_parse (consume ts p4 (Some ''PUNCT'') (Some ''{'')) (\<lambda>tk p5.
     then_parse (statements_loop (\<lambda>ts' pos'. parse_statement n ts' pos') n ts [] p5) (\<lambda>stmts p6.
     then_parse (consume ts p6 (Some ''PUNCT'') (Some ''}'')) (\<lambda>tk p7.
     Parsed (Function rt_value name_value stmts) p7)))))))))"

text \<open>\<^verbatim>\<open>parse\<close>: functions are parsed until the tokens are used up.\<close>

fun functions_loop :: "nat \<Rightarrow> nat \<Rightarrow> token list \<Rightarrow> func list \<Rightarrow> nat \<Rightarrow> (func list) parsed" where
  "functions_loop n 0 ts functions pos = OutOfFuel"
| "functions_loop n (Suc k) ts functions pos =
     (if pos < length ts then
        then_parse (parse_function n ts pos) (\<lambda>f p1. functions_loop n k ts (functions @ [f]) p1)
      else Parsed functions pos)"

definition parse :: "nat \<Rightarrow> token list \<Rightarrow> (func list) parsed" where
  "parse fuel ts = functions_loop fuel fuel ts [] 0"

section \<open>The code generator (Toycc.py)\<close>

record codegen =
  output_buf :: "string list"
  data :: "string list"
  label_count :: nat
  string_count :: nat
  vars :: "(string \<times> int) list"
  stack_offset :: int

definition CodeGen :: codegen where
  "CodeGen = \<lparr>output_buf = [], data = [], label_count = 0, string_count = 0, vars = [],
              stack_offset = 0\<rparr>"

definition new_label :: "string \<Rightarrow> codegen \<Rightarrow> string \<times> codegen" where
  "new_label prefix cg =
     (prefix @ str_nat (label_count cg), cg\<lparr>label_count := label_count cg + 1\<rparr>)"

definition add_string :: "string \<Rightarrow> codegen \<Rightarrow> string \<times> codegen" where
  "add_string s cg =
     (let label = ''str'' @ str_nat (string_count cg)
      in (label, cg\<lparr>string_count := string_count cg + 1,
                     data := data cg @ [label @ '': .asciiz '' @ [CHR 0x22] @ s @ [CHR 0x22]]\<rparr>))"

definition emit :: "string \<Rightarrow> codegen \<Rightarrow> codegen" where
  "emit code cg = cg\<lparr>output_buf := output_buf cg @ [code]\<rparr>"

text \<open>Several \<^verbatim>\<open>emit\<close> calls in a row, first line first.\<close>

definition emits :: "string list \<Rightarrow> codegen \<Rightarrow> codegen" where
  "emits codes cg = fold emit codes cg"

text \<open>
  The chain \<^verbatim>\<open>if op == '+': ... elif op == '>=': ...\<close> of \<^verbatim>\<open>gen_expr\<close>: the lines emitted
  for a binary operator once the left operand is in \<^verbatim>\<open>$t0\<close> and the right one in \<^verbatim>\<open>$t1\<close>.
\<close>

definition binop_lines :: "string \<Rightarrow> string list" where
  "binop_lines op =
     (if op = ''+'' then [''    add $t0, $t0, $t1'']
      else if op = ''-'' then [''    sub $t0, $t0, $t1'']
      else if op = ''*'' then [''    mul $t0, $t0, $t1'']
      else if op = ''/'' then [''    div $t0, $t1'', ''    mflo $t0'']
      else if op = ''%'' then [''    div $t0, $t1'', ''    mfhi $t0'']
      else if op = ''<'' then [''    slt $t0, $t0, $t1'']
      else if op = ''>'' then [''    slt $t0, $t1, $t0'']
      else if op = ''=='' then
        [''    sub $t0, $t0, $t1'', ''    slt $t2, $t0, $zero'', ''    slt $t3, $zero, $t0'',
         ''    or $t0, $t2, $t3'', ''    xori $t0, $t0, 1'']
      else if op = ''!='' then
        [''    sub $t0, $t0, $t1'', ''    sltu $t0, $zero, $t0'', ''    andi $t0, $t0, 1'']
      else if op = ''<='' then [''    slt $t0, $t1, $t0'', ''    xori $t0, $t0, 1'']
      else if op = ''>='' then [''    slt $t0, $t0, $t1'', ''    xori $t0, $t0, 1'']
      else [])"

text \<open>\<^verbatim>\<open>expr['operand']['name']\<close>: only a variable and a call have the key \<^verbatim>\<open>'name'\<close>.\<close>

definition operand_name :: "expr \<Rightarrow> error + string" where
  "operand_name e =
     (case e of Var name \<Rightarrow> Inr name | Call name args \<Rightarrow> Inr name | _ \<Rightarrow> Inl (KeyError ''name''))"

fun gen_expr :: "expr \<Rightarrow> codegen \<Rightarrow> error + codegen" where
  "gen_expr (Number v) cg = Inr (emit (''    li $t0, '' @ str_int v) cg)"
| "gen_expr (String s) cg =
     (let (label, cg1) = add_string s cg in Inr (emit (''    la $t0, '' @ label) cg1))"
| "gen_expr (Var name) cg =
     (case dict_item (vars cg) name of
        Inl e \<Rightarrow> Inl e
      | Inr offset \<Rightarrow> Inr (emit (''    lw $t0, '' @ str_int offset @ ''($fp)'') cg))"
| "gen_expr (Assign left right) cg =
     (case gen_expr right cg of
        Inl e \<Rightarrow> Inl e
      | Inr cg1 \<Rightarrow>
          (case left of
             Var name \<Rightarrow>
               (case dict_item (vars cg1) name of
                  Inl e \<Rightarrow> Inl e
                | Inr offset \<Rightarrow> Inr (emit (''    sw $t0, '' @ str_int offset @ ''($fp)'') cg1))
           | _ \<Rightarrow> Inr cg1))"
| "gen_expr (BinOp op left right) cg =
     (case gen_expr left cg of
        Inl e \<Rightarrow> Inl e
      | Inr cg1 \<Rightarrow>
          (case gen_expr right (emits [''    addi $sp, $sp, -4'', ''    sw $t0, 0($sp)''] cg1) of
             Inl e \<Rightarrow> Inl e
           | Inr cg2 \<Rightarrow>
               Inr (emits (binop_lines op)
                     (emits [''    move $t1, $t0'', ''    lw $t0, 0($sp)'', ''    addi $sp, $sp, 4'']
                        cg2))))"
| "gen_expr (PreOp op operand) cg =
     (case operand_name operand of
        Inl e \<Rightarrow> Inl e
      | Inr var_name \<Rightarrow>
          (case dict_item (vars cg) var_name of
             Inl e \<Rightarrow> Inl e
           | Inr offset \<Rightarrow>
               Inr (emits [''    lw $t0, '' @ str_int offset @ ''($fp)'',
                           (if op = ''++'' then ''    addi $t0, $t0, 1'' else ''    addi $t0, $t0, -1''),
                           ''    sw $t0, '' @ str_int offset @ ''($fp)''] cg)))"
| "gen_expr (PostOp op operand) cg =
     (case operand_name operand of
        Inl e \<Rightarrow> Inl e
      | Inr var_name \<Rightarrow>
          (case dict_item (vars cg) var_name of
             Inl e \<Rightarrow> Inl e
           | Inr offset \<Rightarrow>
               Inr (emits [''    lw $t0, '' @ str_int offset @ ''($fp)'',
                           ''    move $t2, $t0'',
                           (if op = ''++'' then ''    addi $t0, $t0, 1'' else ''    addi $t0, $t0, -1''),
                           ''    sw $t0, '' @ str_int offset @ ''($fp)'',
                           ''    move $t0, $t2''] cg)))"
| "gen_expr (Call name []) cg =
     (if name = ''print_int'' \<or> name = ''print_str'' then Inl IndexError else Inr cg)"
| "gen_expr (Call name (a # args)) cg =
     (if name = ''print_int'' then
        (case gen_expr a cg of
           Inl e \<Rightarrow> Inl e
         | Inr cg1 \<Rightarrow> Inr (emits [''    move $a0, $t0'', ''    jal print_int''] cg1))
      else if name = ''print_str'' then
        (case gen_expr a cg of
           Inl e \<Rightarrow> Inl e
         | Inr cg1 \<Rightarrow> Inr (emits [''    move $a0, $t0'', ''    jal print_str''] cg1))
      else Inr cg)"

text \<open>
  The branch \<^verbatim>\<open>'Declaration'\<close> of \<^verbatim>\<open>gen_stmt\<close>; the initialiser of a \<^verbatim>\<open>for\<close> that is a
  declaration goes through it as well (\<^verbatim>\<open>self.gen_stmt(stmt['init'])\<close>).
\<close>

definition gen_declaration :: "string \<Rightarrow> expr option \<Rightarrow> codegen \<Rightarrow> error + codegen" where
  "gen_declaration name init cg =
     (let cg1 = emit ''    addi $sp, $sp, -4'' cg;
          cg2 = cg1\<lparr>stack_offset := stack_offset cg1 + 4\<rparr>;
          cg3 = cg2\<lparr>vars := AList.update name (- stack_offset cg2) (vars cg2)\<rparr>
      in case init of
           None \<Rightarrow> Inr cg3
         | Some e \<Rightarrow>
             (case gen_expr e cg3 of
                Inl err \<Rightarrow> Inl err
              | Inr cg4 \<Rightarrow>
                  (case dict_item (vars cg4) name of
                     Inl err \<Rightarrow> Inl err
                   | Inr offset \<Rightarrow> Inr (emit (''    sw $t0, '' @ str_int offset @ ''($fp)'') cg4))))"

fun gen_stmt :: "stmt \<Rightarrow> codegen \<Rightarrow> error + codegen"
  and gen_stmts :: "stmt list \<Rightarrow> codegen \<Rightarrow> error + codegen"
where
  "gen_stmt (Declaration name init) cg = gen_declaration name init cg"
| "gen_stmt (ExprStmt e) cg = gen_expr e cg"
| "gen_stmt (If condition then_body else_body) cg =
     (let (else_lbl, cg1) = new_label ''else'' cg;
          (end_lbl, cg2) = new_label ''endif'' cg1
      in case gen_expr condition cg2 of
           Inl e \<Rightarrow> Inl e
         | Inr cg3 \<Rightarrow>
             (case gen_stmts then_body (emit (''    beq $t0, $zero, '' @ else_lbl) cg3) of
                Inl e \<Rightarrow> Inl e
              | Inr cg4 \<Rightarrow>
                  (case (case else_body of
                           None \<Rightarrow> Inr (emits [''    j '' @ end_lbl, else_lbl @ '':''] cg4)
                         | Some ss \<Rightarrow>
                             if ss \<noteq> [] then gen_stmts ss (emits [''    j '' @ end_lbl, else_lbl @ '':''] cg4)
                             else Inr (emits [''    j '' @ end_lbl, else_lbl @ '':''] cg4)) of
                     Inl e \<Rightarrow> Inl e
                   | Inr cg5 \<Rightarrow> Inr (emit (end_lbl @ '':'') cg5))))"
| "gen_stmt (While condition body) cg =
     (let (loop_lbl, cg1) = new_label ''while'' cg;
          (end_lbl, cg2) = new_label ''endwhile'' cg1
      in case gen_expr condition (emit (loop_lbl @ '':'') cg2) of
           Inl e \<Rightarrow> Inl e
         | Inr cg3 \<Rightarrow>
             (case gen_stmts body (emit (''    beq $t0, $zero, '' @ end_lbl) cg3) of
                Inl e \<Rightarrow> Inl e
              | Inr cg4 \<Rightarrow> Inr (emits [''    j '' @ loop_lbl, end_lbl @ '':''] cg4)))"
| "gen_stmt (For init condition update body) cg =
     (let (loop_lbl, cg1) = new_label ''for'' cg;
          (end_lbl, cg2) = new_label ''endfor'' cg1
      in case (case init of
                 None \<Rightarrow> Inr cg2
               | Some (InitDeclaration name e) \<Rightarrow> gen_declaration name e cg2
               | Some (InitExpression e) \<Rightarrow> gen_expr e cg2) of
           Inl e \<Rightarrow> Inl e
         | Inr cg3 \<Rightarrow>
             (case (case condition of
                      None \<Rightarrow> Inr (emit (loop_lbl @ '':'') cg3)
                    | Some c \<Rightarrow>
                        (case gen_expr c (emit (loop_lbl @ '':'') cg3) of
                           Inl e \<Rightarrow> Inl e
                         | Inr cg4 \<Rightarrow> Inr (emit (''    beq $t0, $zero, '' @ end_lbl) cg4))) of
                Inl e \<Rightarrow> Inl e
              | Inr cg5 \<Rightarrow>
                  (case gen_stmts body cg5 of
                     Inl e \<Rightarrow> Inl e
                   | Inr cg6 \<Rightarrow>
                       (case (case update of None \<Rightarrow> Inr cg6 | Some u \<Rightarrow> gen_expr u cg6) of
                          Inl e \<Rightarrow> Inl e
                        | Inr cg7 \<Rightarrow> Inr (emits [''    j '' @ loop_lbl, end_lbl @ '':''] cg7)))))"
| "gen_stmt (Return v) cg =
     (case (case v of
              None \<Rightarrow> Inr cg
            | Some e \<Rightarrow>
                (case gen_expr e cg of
                   Inl err \<Rightarrow> Inl err
                 | Inr cg1 \<Rightarrow> Inr (emit ''    move $v0, $t0'' cg1))) of
        Inl err \<Rightarrow> Inl err
      | Inr cg2 \<Rightarrow> Inr (emit ''    j main_exit'' cg2))"
| "gen_stmts [] cg = Inr cg"
| "gen_stmts (s # ss) cg =
     (case gen_stmt s cg of Inl e \<Rightarrow> Inl e | Inr cg1 \<Rightarrow> gen_stmts ss cg1)"

definition prologue_lines :: "string \<Rightarrow> string list" where
  "prologue_lines name =
     [name @ '':'', ''    addi $sp, $sp, -8'', ''    sw $ra, 4($sp)'', ''    sw $fp, 0($sp)'',
      ''    move $fp, $sp'']"

definition epilogue_lines :: "string \<Rightarrow> string list" where
  "epilogue_lines name =
     [name @ ''_exit:'', ''    move $sp, $fp'', ''    lw $fp, 0($sp)'', ''    lw $ra, 4($sp)'',
      ''    addi $sp, $sp, 8'', ''    jr $ra'', '''']"

definition gen_function :: "func \<Rightarrow> codegen \<Rightarrow> error + codegen" where
  "gen_function func cg =
     (let cg1 = emits (prologue_lines (fname func)) cg;
          cg2 = cg1\<lparr>vars := [], stack_offset := 0\<rparr>
      in case gen_stmts (fbody func) cg2 of
           Inl e \<Rightarrow> Inl e
         | Inr cg3 \<Rightarrow> Inr (emits (epilogue_lines (fname func)) cg3))"

fun gen_functions :: "func list \<Rightarrow> codegen \<Rightarrow> error + codegen" where
  "gen_functions [] cg = Inr cg"
| "gen_functions (f # fs) cg =
     (case gen_function f cg of Inl e \<Rightarrow> Inl e | Inr cg1 \<Rightarrow> gen_functions fs cg1)"

definition runtime_lines :: "string list" where
  "runtime_lines =
     ['''', ''print_int:'', ''    li $v0, 1'', ''    syscall'', ''    jr $ra'', '''',
      ''print_str:'', ''    li $v0, 4'', ''    syscall'', ''    jr $ra'']"

definition generate :: "func list \<Rightarrow> codegen \<Rightarrow> error + string" where
  "generate ast cg =
     (case gen_functions ast cg of
        Inl e \<Rightarrow> Inl e
      | Inr cg1 \<Rightarrow>
          Inr (join (CHR 0x0A)
                 ([''.data''] @ data cg1 @ ['''', ''.text'', ''.globl main'', ''''] @ output_buf cg1
                    @ runtime_lines)))"

text \<open>
  \<^verbatim>\<open>main\<close> of Toycc.py without the files: the text is tokenized, parsed and generated.
  \<open>None\<close> is the model of the parser running out of fuel.
\<close>

definition toycc :: "nat \<Rightarrow> string \<Rightarrow> (error + string) option" where
  "toycc fuel code =
     (case tokenize code of
        Inl e \<Rightarrow> Some (Inl e)
      | Inr tokens \<Rightarrow>
          (case parse fuel tokens of
             OutOfFuel \<Rightarrow> None
           | Failed e \<Rightarrow> Some (Inl e)
           | Parsed ast pos \<Rightarrow> Some (generate ast CodeGen)))"

section \<open>Properties of the simulator\<close>

subsection \<open>Memory words\<close>

lemma upt4: "[0..<4] = [0, 1, 2, 3]"
  by (simp add: upt_rec)

lemma memory_write_mem:
  "memory (write_mem a w s) =
     AList.update (a + 3) (drop_bit 24 w AND 0xFF)
       (AList.update (a + 2) (drop_bit 16 w AND 0xFF)
         (AList.update (a + 1) (drop_bit 8 w AND 0xFF)
           (AList.update a (w AND 0xFF) (memory s))))"
  by (simp add: write_mem_def upt4)

lemma map_of_write_mem:
  "map_of (memory (write_mem a w s)) =
     (map_of (memory s))(a \<mapsto> w AND 0xFF, a + 1 \<mapsto> drop_bit 8 w AND 0xFF,
        a + 2 \<mapsto> drop_bit 16 w AND 0xFF, a + 3 \<mapsto> drop_bit 24 w AND 0xFF)"
  by (simp add: memory_write_mem update_conv')

lemma read_mem_unfold:
  "read_mem s a =
     ((dict_get (memory s) a 0 OR push_bit 8 (dict_get (memory s) (a + 1) 0))
       OR push_bit 16 (dict_get (memory s) (a + 2) 0)) OR push_bit 24 (dict_get (memory s) (a + 3) 0)"
  by (simp add: read_mem_def upt4)

lemma bytes_compose:
  "(((w AND 0xFF) OR push_bit 8 (drop_bit 8 w AND 0xFF)) OR push_bit 16 (drop_bit 16 w AND 0xFF))
     OR push_bit 24 (drop_bit 24 w AND 0xFF) = (w AND 0xFFFFFFFF :: int)"
proof -
  have m8: "(0xFF :: int) = mask 8" by (simp add: mask_eq_exp_minus_1)
  have m32: "(0xFFFFFFFF :: int) = mask 32" by (simp add: mask_eq_exp_minus_1)
  show ?thesis
    unfolding m8 m32
  proof (rule bit_eqI)
    fix n :: nat
    have "n < 8 \<or> (8 \<le> n \<and> n < 16) \<or> (16 \<le> n \<and> n < 24) \<or> (24 \<le> n \<and> n < 32) \<or> 32 \<le> n"
      by arith
    then show "bit ((((w AND mask 8) OR push_bit 8 (drop_bit 8 w AND mask 8)) OR
             push_bit 16 (drop_bit 16 w AND mask 8)) OR push_bit 24 (drop_bit 24 w AND mask 8)) n
        = bit (w AND mask 32) n"
      by (elim disjE conjE) (auto simp: bit_simps)
  qed
qed

subsection \<open>Register 0\<close>

lemma get_reg_zero: "get_reg s ''$zero'' = Inr 0"
  by (simp add: get_reg_def reg_names_def)

lemma set_reg_zero: "set_reg ''$zero'' v s = Inr s"
  by (simp add: set_reg_def reg_names_def)

lemma set_reg_slot0:
  "set_reg name v s = Inr s' \<Longrightarrow> regs s' ! 0 = regs s ! 0 \<and> length (regs s') = length (regs s)"
  by (auto simp: set_reg_def split: option.splits if_splits)

lemma regs_next_pc: "regs (next_pc s) = regs s"
  by (simp add: next_pc_def)

lemma regs_write_mem: "regs (write_mem a w s) = regs s"
  by (simp add: write_mem_def upt_rec)

lemma raising_Ok:
  "raising s x f = Ok s' \<Longrightarrow> \<exists>v. x = Inr v \<and> f v = Ok s'"
  by (cases x) (simp_all add: raising_def)

lemma reg_reg_op_zero:
  "reg_reg_op f (''$zero'' # rest) s = Ok s' \<Longrightarrow> regs s' = regs s"
  unfolding reg_reg_op_def
  by (auto dest!: raising_Ok simp: item_def set_reg_zero regs_next_pc)

lemma reg_imm_op_zero:
  "reg_imm_op f (''$zero'' # rest) s = Ok s' \<Longrightarrow> regs s' = regs s"
  unfolding reg_imm_op_def
  by (auto dest!: raising_Ok simp: item_def set_reg_zero regs_next_pc)

lemma reg_reg_op_slot0:
  "reg_reg_op f operands s = Ok s' \<Longrightarrow> regs s' ! 0 = regs s ! 0 \<and> length (regs s') = length (regs s)"
  unfolding reg_reg_op_def
  by (auto dest!: raising_Ok set_reg_slot0 simp: regs_next_pc)

lemma reg_imm_op_slot0:
  "reg_imm_op f operands s = Ok s' \<Longrightarrow> regs s' ! 0 = regs s ! 0 \<and> length (regs s') = length (regs s)"
  unfolding reg_imm_op_def
  by (auto dest!: raising_Ok set_reg_slot0 simp: regs_next_pc)

lemma exec_op_zero_target:
  assumes "op \<noteq> ''jal''" and "exec_op op (''$zero'' # rest) s = Ok s'"
  shows "regs s' = regs s"
  using assms unfolding exec_op_def
  by (auto dest!: raising_Ok reg_reg_op_zero reg_imm_op_zero
        simp: item_def set_reg_zero regs_next_pc regs_write_mem Let_def
        split: if_splits prod.splits)

lemma exec_op_slot0:
  assumes "exec_op op operands s = Ok s'"
  shows "regs s' ! 0 = regs s ! 0 \<and> length (regs s') = length (regs s)"
  using assms unfolding exec_op_def
  by (auto dest!: raising_Ok reg_reg_op_slot0 reg_imm_op_slot0 set_reg_slot0
        simp: regs_next_pc regs_write_mem Let_def
        split: if_splits prod.splits)

lemma execute_slot0:
  assumes "execute inst s = Ok s'"
  shows "regs s' ! 0 = regs s ! 0 \<and> length (regs s') = length (regs s)"
  using assms unfolding execute_def Let_def
  by (auto dest: exec_op_slot0 simp: regs_next_pc split: if_splits)

subsection \<open>The run loop\<close>

lemma run_loop_bound:
  "run_loop s iterations = Stopped s' n \<Longrightarrow> iterations \<le> max_iter \<Longrightarrow> iterations \<le> n \<and> n \<le> max_iter"
proof (induction s iterations rule: run_loop.induct)
  case (1 s iterations)
  show ?case
  proof (cases "running s \<and> iterations < max_iter")
    case False
    then have "run_loop s iterations = Stopped s iterations"
      by (subst run_loop.simps) auto
    then show ?thesis using "1.prems" by simp
  next
    case go: True
    show ?thesis
    proof (cases "int (length (instructions s)) \<le> pc s")
      case True
      then show ?thesis using "1.prems" go by (auto simp: run_loop.simps [of s iterations])
    next
      case inside: False
      show ?thesis
      proof (cases "item_int (instructions s) (pc s)")
        case (Inl e)
        then show ?thesis using "1.prems" go inside by (auto simp: run_loop.simps [of s iterations])
      next
        case (Inr raw)
        show ?thesis
        proof (cases "strip raw = [] \<or> startswith (strip raw) ''#''")
          case True
          then have "run_loop (s\<lparr>pc := pc s + 1\<rparr>) iterations = Stopped s' n"
            using "1.prems"(1) go inside Inr by (auto simp: run_loop.simps [of s iterations])
          then show ?thesis
            using "1.IH"(1) [OF go inside Inr refl True] "1.prems"(2) by simp
        next
          case False
          show ?thesis
          proof (cases "execute (strip raw) s")
            case (Raise e s1)
            then show ?thesis using "1.prems" go inside Inr False
              by (auto simp: run_loop.simps [of s iterations])
          next
            case (Ok s1)
            then have "run_loop s1 (iterations + 1) = Stopped s' n"
              using "1.prems"(1) go inside Inr False by (auto simp: run_loop.simps [of s iterations])
            moreover have "iterations + 1 \<le> max_iter" using go by simp
            ultimately show ?thesis
              using "1.IH"(2) [OF go inside Inr refl False Ok] by simp
          qed
        qed
      qed
    qed
  qed
qed

lemma run_loop_not_running: "\<not> running s \<Longrightarrow> run_loop s iterations = Stopped s iterations"
  by (subst run_loop.simps) auto

lemma run_loop_budget: "run_loop s max_iter = Stopped s max_iter"
  by (subst run_loop.simps) auto

lemma run_loop_fetch:
  assumes "running s" "iterations < max_iter" "0 \<le> pc s" "pc s < int (length (instructions s))"
    and "strip (instructions s ! nat (pc s)) = inst" "inst \<noteq> []" "\<not> startswith inst ''#''"
  shows "run_loop s iterations =
     (case execute inst s of Raise e s' \<Rightarrow> Crashed e s' | Ok s' \<Rightarrow> run_loop s' (iterations + 1))"
  using assms by (subst run_loop.simps) (auto simp: item_int_def Let_def)

lemma decode_jr: "split_ws (strip ''jr $ra'') = [''jr'', ''$ra''] \<and> operands_of [''$ra''] = [''$ra'']"
  by code_simp

lemma execute_jr_ra:
  "get_reg s ''$ra'' = Inr 0 \<Longrightarrow> execute ''jr $ra'' s = Ok (s\<lparr>running := False\<rparr>)"
  using decode_jr by (simp add: execute_def exec_op_def raising_def item_def)

subsection \<open>Division\<close>

lemma reg_index_bound: "map_of reg_names r = Some idx \<Longrightarrow> idx < 32"
  by (auto simp: reg_names_def split: if_splits)

lemma get_reg_known:
  assumes "dict_has reg_names r" and "length (regs s) = 32"
  shows "\<exists>v. get_reg s r = Inr v"
proof -
  from assms(1) obtain idx where idx: "map_of reg_names r = Some idx"
    by (auto simp: dict_has_def)
  then have "idx < 32" by (rule reg_index_bound)
  then show ?thesis using idx assms(2) by (simp add: get_reg_def item_def)
qed

lemma exec_op_div:
  assumes "get_reg s r1 = Inr v1" and "get_reg s r2 = Inr v2"
  shows "exec_op ''div'' (r1 # r2 # rest) s =
     (if v2 = 0 then Raise DivisionByZero s
      else Ok (s\<lparr>lo := Some (v1 div v2), hi := Some (v1 mod v2), pc := pc s + 1\<rparr>))"
  using assms by (simp add: exec_op_def raising_def item_def next_pc_def)

subsection \<open>Load address\<close>

lemma map_of_store_chars:
  "map_of (fold (\<lambda>(i, char). AList.update (addr + int i) (int (code_of char)))
             (List.enumerate n str) m) k =
     (if addr + int n \<le> k \<and> k < addr + int n + int (length str)
      then Some (int (code_of (str ! nat (k - addr - int n))))
      else map_of m k)"
proof (induction str arbitrary: n m)
  case Nil
  then show ?case by auto
next
  case (Cons c cs)
  have "nat (k - addr - int n) = Suc (nat (k - addr - int (Suc n)))"
    if "addr + int (Suc n) \<le> k"
    using that by simp
  then show ?case
    using Cons.IH [of "Suc n" "AList.update (addr + int n) (int (code_of c)) m"]
    by (auto simp: update_conv')
qed

lemma set_reg_known:
  assumes "map_of reg_names rd = Some idx" and "idx \<noteq> 0" and "length (regs s) = 32"
  shows "set_reg rd v s = Inr (s\<lparr>regs := (regs s)[idx := v AND 0xFFFFFFFF]\<rparr>)"
  using assms reg_index_bound [OF assms(1)] by (simp add: set_reg_def)

lemma get_reg_updated:
  assumes "map_of reg_names rd = Some idx" and "idx \<noteq> 0" and "length (regs s) = 32"
    and "regs s' = (regs s)[idx := v]"
  shows "get_reg s' rd = Inr v"
  using assms reg_index_bound [OF assms(1)] by (simp add: get_reg_def item_def)

lemma address_fits:
  assumes "n < 0xF0000000"
  shows "(0x10000000 + int n) AND 0xFFFFFFFF = 0x10000000 + int n"
proof -
  have "(0xFFFFFFFF :: int) = mask 32" by (simp add: mask_eq_exp_minus_1)
  moreover have "take_bit 32 (0x10000000 + int n) = 0x10000000 + int n"
    using assms by (simp add: take_bit_int_eq_self)
  ultimately show ?thesis by (simp add: take_bit_eq_mask)
qed

lemma exec_op_la:
  assumes ds: "map_of (data_strings s) L = Some str"
    and rd: "map_of reg_names rd = Some idx" "idx \<noteq> 0" and len: "length (regs s) = 32"
    and fits: "length L < 0xF0000000"
  shows "\<exists>s'. exec_op ''la'' (rd # L # rest) s = Ok s'
      \<and> get_reg s' rd = Inr (0x10000000 + int (length L))
      \<and> (\<forall>i < length str. dict_get (memory s') (0x10000000 + int (length L) + int i) 0
             = int (code_of (str ! i)))
      \<and> dict_get (memory s') (0x10000000 + int (length L) + int (length str)) 0 = 0
      \<and> data_strings s' = data_strings s \<and> length (regs s') = 32"
proof -
  let ?addr = "0x10000000 + int (length L)"
  let ?s1 = "s\<lparr>regs := (regs s)[idx := ?addr]\<rparr>"
  let ?m1 = "fold (\<lambda>(i, char). AList.update (?addr + int i) (int (code_of char)))
               (List.enumerate 0 str) (memory s)"
  let ?m2 = "AList.update (?addr + int (length str)) 0 ?m1"
  let ?s' = "next_pc (?s1\<lparr>memory := ?m2\<rparr>)"
  have sr: "set_reg rd ?addr s = Inr ?s1"
    using set_reg_known [OF rd len, of ?addr] address_fits [OF fits] by simp
  have ex: "exec_op ''la'' (rd # L # rest) s = Ok ?s'"
    using ds sr by (simp add: exec_op_def raising_def item_def dict_has_def dict_item_def Let_def)
  have g: "get_reg ?s' rd = Inr ?addr"
    by (rule get_reg_updated [OF rd len]) (simp add: next_pc_def)
  have bytes: "dict_get (memory ?s') (?addr + int i) 0 = int (code_of (str ! i))" if "i < length str" for i
    using that by (simp add: next_pc_def dict_get_def update_conv' map_of_store_chars)
  have nul: "dict_get (memory ?s') (?addr + int (length str)) 0 = 0"
    by (simp add: next_pc_def dict_get_def update_conv')
  have other: "data_strings ?s' = data_strings s \<and> length (regs ?s') = 32"
    using len by (simp add: next_pc_def)
  show ?thesis
    using ex g bytes nul other by blast
qed

section \<open>Claims about the simulator\<close>

text \<open>
  C8. Memory words are little-endian byte-composed. After \<open>write_mem a w\<close> the byte at
  \<open>a + i\<close> is \<open>(w >> (8 * i)) & 0xFF\<close> for \<open>i = 0, 1, 2, 3\<close>; every other address keeps
  what it had (mapped or not); reading the word back gives \<open>w & 0xFFFFFFFF\<close>; and a word
  read from four unmapped addresses is 0. This holds for every integer address and every
  integer \<open>w\<close>, negative ones included.
\<close>

theorem write_mem_little_endian:
  "(\<forall>i<4. dict_get (memory (write_mem a w s)) (a + int i) 0 = drop_bit (8 * i) w AND 0xFF)
   \<and> (\<forall>k. k < a \<or> a + 3 < k \<longrightarrow> map_of (memory (write_mem a w s)) k = map_of (memory s) k)
   \<and> read_mem (write_mem a w s) a = w AND 0xFFFFFFFF
   \<and> ((\<forall>i<4. map_of (memory s) (a + int i) = None) \<longrightarrow> read_mem s a = 0)"
proof (intro conjI allI impI)
  fix i :: nat
  assume "i < 4"
  then have "i = 0 \<or> i = 1 \<or> i = 2 \<or> i = 3" by arith
  then show "dict_get (memory (write_mem a w s)) (a + int i) 0 = drop_bit (8 * i) w AND 0xFF"
    by (elim disjE) (simp_all add: dict_get_def map_of_write_mem)
next
  fix k :: int
  assume "k < a \<or> a + 3 < k"
  then show "map_of (memory (write_mem a w s)) k = map_of (memory s) k"
    by (auto simp: map_of_write_mem)
next
  have "read_mem (write_mem a w s) a =
      (((w AND 0xFF) OR push_bit 8 (drop_bit 8 w AND 0xFF)) OR push_bit 16 (drop_bit 16 w AND 0xFF))
        OR push_bit 24 (drop_bit 24 w AND 0xFF)"
    by (simp add: read_mem_unfold dict_get_def map_of_write_mem)
  then show "read_mem (write_mem a w s) a = w AND 0xFFFFFFFF"
    by (simp only: bytes_compose)
next
  assume unmapped: "\<forall>i<4. map_of (memory s) (a + int i) = None"
  have "map_of (memory s) a = None" "map_of (memory s) (a + 1) = None"
    "map_of (memory s) (a + 2) = None" "map_of (memory s) (a + 3) = None"
    using unmapped [rule_format, of 0] unmapped [rule_format, of 1]
      unmapped [rule_format, of 2] unmapped [rule_format, of 3]
    by simp_all
  then show "read_mem s a = 0"
    by (simp add: read_mem_unfold dict_get_def)
qed

theorem write_mem_little_endian_witness:
  "dict_get (memory (write_mem 16 (- 2) MIPSInterpreter)) (16 + int 1) 0 = drop_bit (8 * 1) (- 2) AND 0xFF
   \<and> map_of (memory (write_mem 16 (- 2) MIPSInterpreter)) 20 = map_of (memory MIPSInterpreter) 20
   \<and> read_mem (write_mem 16 (- 2) MIPSInterpreter) 16 = 0xFFFFFFFE
   \<and> read_mem MIPSInterpreter 16 = 0"
proof -
  have unmapped: "\<forall>i<4. map_of (memory MIPSInterpreter) (16 + int i) = None"
    by (simp add: MIPSInterpreter_def)
  have mask: "(- 2 :: int) AND 0xFFFFFFFE = 0xFFFFFFFE \<and> (- 2 :: int) AND 0xFFFFFFFF = 0xFFFFFFFE"
    by code_simp
  note t = write_mem_little_endian [of 16 "- 2" MIPSInterpreter]
  have b1: "dict_get (memory (write_mem 16 (- 2) MIPSInterpreter)) (16 + int 1) 0
      = drop_bit (8 * 1) (- 2) AND 0xFF"
    using t [THEN conjunct1, rule_format, of 1] by simp
  have b2: "map_of (memory (write_mem 16 (- 2) MIPSInterpreter)) 20 = map_of (memory MIPSInterpreter) 20"
    using t [THEN conjunct2, THEN conjunct1, rule_format, of 20] by simp
  have b3: "read_mem (write_mem 16 (- 2) MIPSInterpreter) 16 = 0xFFFFFFFE"
    using t [THEN conjunct2, THEN conjunct2, THEN conjunct1] mask by simp
  have b4: "read_mem MIPSInterpreter 16 = 0"
    by (rule mp [OF t [THEN conjunct2, THEN conjunct2, THEN conjunct2] unmapped])
  show ?thesis
    using b1 b2 b3 b4 by blast
qed

text \<open>
  C5. Register 0 is wired to zero. Reading \<^verbatim>\<open>$zero\<close> gives 0 in every state, whatever the
  slot holds. Writing \<^verbatim>\<open>$zero\<close> changes nothing. For every opcode whose first operand is a
  destination (every opcode but \<^verbatim>\<open>jal\<close>, whose first operand is the callee and which writes
  \<^verbatim>\<open>$ra\<close>), an instruction with \<^verbatim>\<open>$zero\<close> as first operand leaves all register slots as
  they were. And no instruction whatsoever changes slot 0 or the number of slots, so the 0
  that the initial state holds there stays.
\<close>

theorem zero_register_wired:
  "get_reg s ''$zero'' = Inr 0
   \<and> set_reg ''$zero'' v s = Inr s
   \<and> (op \<noteq> ''jal'' \<and> exec_op op (''$zero'' # rest) s = Ok s' \<longrightarrow> regs s' = regs s)
   \<and> (execute inst s = Ok s'' \<longrightarrow> regs s'' ! 0 = regs s ! 0 \<and> length (regs s'') = length (regs s))
   \<and> regs MIPSInterpreter ! 0 = 0"
proof (intro conjI impI)
  show "get_reg s ''$zero'' = Inr 0" by (rule get_reg_zero)
  show "set_reg ''$zero'' v s = Inr s" by (rule set_reg_zero)
  show "regs s' = regs s" if "op \<noteq> ''jal'' \<and> exec_op op (''$zero'' # rest) s = Ok s'"
    using that exec_op_zero_target by blast
  show "regs s'' ! 0 = regs s ! 0" if "execute inst s = Ok s''"
    using execute_slot0 [OF that] by simp
  show "length (regs s'') = length (regs s)" if "execute inst s = Ok s''"
    using execute_slot0 [OF that] by simp
  show "regs MIPSInterpreter ! 0 = 0" by (simp add: MIPSInterpreter_def)
qed

lemma sample_state:
  "load_program (join (CHR 0x0A) [''.text'', ''main:'', ''    li $t0, 7'', ''    li $zero, 5''])
     MIPSInterpreter
   = Inr (MIPSInterpreter\<lparr>regs := (replicate 32 0)[29 := 0x7ffffffc],
            labels := [(''main'', 0)], instructions := [''li $t0, 7'', ''li $zero, 5'']\<rparr>)"
  by code_simp

definition sample_sim :: sim where
  "sample_sim = MIPSInterpreter\<lparr>regs := (replicate 32 0)[29 := 0x7ffffffc],
     labels := [(''main'', 0)], instructions := [''li $t0, 7'', ''li $zero, 5'']\<rparr>"

lemma sample_li_zero:
  "exec_op ''li'' [''$zero'', ''5''] sample_sim = Ok (next_pc sample_sim)
   \<and> execute ''li $t0, 7'' sample_sim
       = Ok (next_pc (sample_sim\<lparr>regs := (replicate 32 0)[29 := 0x7ffffffc, 8 := 7]\<rparr>))"
  by code_simp

theorem zero_register_wired_witness:
  "get_reg sample_sim ''$zero'' = Inr 0
   \<and> set_reg ''$zero'' 5 sample_sim = Inr sample_sim
   \<and> ''li'' \<noteq> ''jal'' \<and> exec_op ''li'' [''$zero'', ''5''] sample_sim = Ok (next_pc sample_sim)
   \<and> regs (next_pc sample_sim) = regs sample_sim
   \<and> regs (next_pc (sample_sim\<lparr>regs := (replicate 32 0)[29 := 0x7ffffffc, 8 := 7]\<rparr>)) ! 0
       = regs sample_sim ! 0"
  using zero_register_wired [of sample_sim 5 "''li''" "[''5'']" "next_pc sample_sim" "''li $t0, 7''"
      "next_pc (sample_sim\<lparr>regs := (replicate 32 0)[29 := 0x7ffffffc, 8 := 7]\<rparr>)"]
    sample_li_zero
  by simp

text \<open>
  C7. The run loop ends for every program. \<open>run_loop\<close> is defined by recursion on the budget
  that is left and, for skipped blank entries, on the distance to the end of the program,
  so it is a total function: \<open>run\<close> either raises or stops after at most 100000 executed
  instructions. The count never goes down and never passes the budget; a \<^verbatim>\<open>jr $ra\<close> that
  finds 0 in \<^verbatim>\<open>$ra\<close> clears \<open>running\<close> and the loop stops there; and with the budget used up
  the loop stops without an error.
\<close>

theorem run_loop_terminates:
  "((\<exists>e s1. run s = Crashed e s1) \<or> (\<exists>s1 n1. run s = Stopped s1 n1 \<and> n1 \<le> 100000))
   \<and> (iterations \<le> max_iter \<and> run_loop s iterations = Stopped s' n
        \<longrightarrow> iterations \<le> n \<and> n \<le> max_iter)
   \<and> (running s \<and> iterations < max_iter \<and> 0 \<le> pc s \<and> pc s < int (length (instructions s))
        \<and> strip (instructions s ! nat (pc s)) = ''jr $ra'' \<and> get_reg s ''$ra'' = Inr 0
        \<longrightarrow> run_loop s iterations = Stopped (s\<lparr>running := False\<rparr>) (iterations + 1))
   \<and> run_loop s max_iter = Stopped s max_iter
   \<and> max_iter = 100000"
proof (intro conjI impI)
  show "(\<exists>e s1. run s = Crashed e s1) \<or> (\<exists>s1 n1. run s = Stopped s1 n1 \<and> n1 \<le> 100000)"
  proof (cases "run s")
    case (Crashed e s1)
    then show ?thesis by blast
  next
    case (Stopped s1 n1)
    then obtain m where "run_loop (s\<lparr>pc := int m\<rparr>) 0 = Stopped s1 n1"
      by (auto simp: run_def split: if_splits sum.splits)
    then have "n1 \<le> max_iter"
      using run_loop_bound by fastforce
    then show ?thesis using Stopped by (simp add: max_iter_def)
  qed
next
  assume "iterations \<le> max_iter \<and> run_loop s iterations = Stopped s' n"
  then have "iterations \<le> n \<and> n \<le> max_iter"
    using run_loop_bound by blast
  then show "iterations \<le> n" and "n \<le> max_iter" by simp_all
next
  assume a: "running s \<and> iterations < max_iter \<and> 0 \<le> pc s \<and> pc s < int (length (instructions s))
        \<and> strip (instructions s ! nat (pc s)) = ''jr $ra'' \<and> get_reg s ''$ra'' = Inr 0"
  have ne: "''jr $ra'' \<noteq> [] \<and> \<not> startswith ''jr $ra'' ''#''"
    by (simp add: startswith_def)
  have "run_loop s iterations =
      (case execute ''jr $ra'' s of Raise e s' \<Rightarrow> Crashed e s' | Ok s' \<Rightarrow> run_loop s' (iterations + 1))"
    using a ne by (intro run_loop_fetch) simp_all
  also have "\<dots> = run_loop (s\<lparr>running := False\<rparr>) (iterations + 1)"
    using a by (simp add: execute_jr_ra)
  also have "\<dots> = Stopped (s\<lparr>running := False\<rparr>) (iterations + 1)"
    by (rule run_loop_not_running) simp
  finally show "run_loop s iterations = Stopped (s\<lparr>running := False\<rparr>) (iterations + 1)" .
next
  show "run_loop s max_iter = Stopped s max_iter" by (rule run_loop_budget)
  show "max_iter = 100000" by (rule max_iter_def)
qed

definition jr_sim :: sim where
  "jr_sim = MIPSInterpreter\<lparr>regs := (replicate 32 0)[29 := 0x7ffffffc],
     labels := [(''main'', 0)], instructions := [''jr $ra'']\<rparr>"

lemma jr_sim_facts:
  "running jr_sim \<and> 0 \<le> pc jr_sim \<and> pc jr_sim < int (length (instructions jr_sim))
   \<and> strip (instructions jr_sim ! nat (pc jr_sim)) = ''jr $ra'' \<and> get_reg jr_sim ''$ra'' = Inr 0
   \<and> load_program (join (CHR 0x0A) [''.text'', ''main:'', ''    jr $ra'']) MIPSInterpreter = Inr jr_sim"
  by code_simp

theorem run_loop_terminates_witness:
  "run_loop jr_sim 0 = Stopped (jr_sim\<lparr>running := False\<rparr>) (0 + 1)
   \<and> (0::nat) \<le> 0 + 1 \<and> (0 + 1 :: nat) \<le> max_iter
   \<and> run_loop jr_sim max_iter = Stopped jr_sim max_iter"
proof -
  note t = run_loop_terminates [of jr_sim 0 "jr_sim\<lparr>running := False\<rparr>" "0 + 1"]
  have pos: "(0::nat) < max_iter" by (simp add: max_iter_def)
  have stop: "run_loop jr_sim 0 = Stopped (jr_sim\<lparr>running := False\<rparr>) (0 + 1)"
    using t [THEN conjunct2, THEN conjunct2, THEN conjunct1] jr_sim_facts pos by blast
  have bound: "(0::nat) \<le> 0 + 1 \<and> (0 + 1 :: nat) \<le> max_iter"
    using t [THEN conjunct2, THEN conjunct1] stop by (simp add: max_iter_def)
  show ?thesis
    using stop bound t by blast
qed

text \<open>
  C10. Load address of a string label. For a label \<open>L\<close> of the string pool with content
  \<open>str\<close> and a destination register other than \<^verbatim>\<open>$zero\<close>, \<^verbatim>\<open>la rd, L\<close> sets \<open>rd\<close> to
  \<open>0x10000000 + length L\<close> (the length of the label's name; a name shorter than
  \<open>0xF0000000\<close> characters, so that the address fits the 32-bit register), writes the
  character codes of \<open>str\<close> to the bytes from that address on and a 0 after them. A second
  label \<open>L2\<close> with a name of the same length is given the same address, and its \<^verbatim>\<open>la\<close>
  writes its own bytes and terminator over what the first one stored there.
\<close>

theorem la_materializes_string:
  assumes "map_of (data_strings s) L = Some str"
    and "map_of reg_names rd = Some idx" and "idx \<noteq> 0" and "length (regs s) = 32"
    and "length L < 0xF0000000"
  shows "\<exists>s1. exec_op ''la'' (rd # L # rest) s = Ok s1
      \<and> get_reg s1 rd = Inr (0x10000000 + int (length L))
      \<and> (\<forall>i < length str. dict_get (memory s1) (0x10000000 + int (length L) + int i) 0
             = int (code_of (str ! i)))
      \<and> dict_get (memory s1) (0x10000000 + int (length L) + int (length str)) 0 = 0
      \<and> (\<forall>L2 str2 rd2 idx2 rest2.
            L2 \<noteq> L \<and> length L2 = length L \<and> map_of (data_strings s) L2 = Some str2
            \<and> map_of reg_names rd2 = Some idx2 \<and> idx2 \<noteq> 0 \<longrightarrow>
            (\<exists>s2. exec_op ''la'' (rd2 # L2 # rest2) s1 = Ok s2
               \<and> get_reg s2 rd2 = Inr (0x10000000 + int (length L))
               \<and> (\<forall>i < length str2. dict_get (memory s2) (0x10000000 + int (length L) + int i) 0
                      = int (code_of (str2 ! i)))
               \<and> dict_get (memory s2) (0x10000000 + int (length L) + int (length str2)) 0 = 0))"
proof -
  from exec_op_la [OF assms, of rest] obtain s1 where
    s1: "exec_op ''la'' (rd # L # rest) s = Ok s1"
      "get_reg s1 rd = Inr (0x10000000 + int (length L))"
      "\<forall>i < length str. dict_get (memory s1) (0x10000000 + int (length L) + int i) 0
             = int (code_of (str ! i))"
      "dict_get (memory s1) (0x10000000 + int (length L) + int (length str)) 0 = 0"
      "data_strings s1 = data_strings s" "length (regs s1) = 32"
    by blast
  have second: "\<exists>s2. exec_op ''la'' (rd2 # L2 # rest2) s1 = Ok s2
               \<and> get_reg s2 rd2 = Inr (0x10000000 + int (length L))
               \<and> (\<forall>i < length str2. dict_get (memory s2) (0x10000000 + int (length L) + int i) 0
                      = int (code_of (str2 ! i)))
               \<and> dict_get (memory s2) (0x10000000 + int (length L) + int (length str2)) 0 = 0"
    if h: "L2 \<noteq> L \<and> length L2 = length L \<and> map_of (data_strings s) L2 = Some str2
            \<and> map_of reg_names rd2 = Some idx2 \<and> idx2 \<noteq> 0"
    for L2 str2 rd2 idx2 rest2
  proof -
    have ds: "map_of (data_strings s1) L2 = Some str2" using h s1(5) by simp
    have fits: "length L2 < 0xF0000000" using h assms(5) by simp
    from h have rd2: "map_of reg_names rd2 = Some idx2" "idx2 \<noteq> 0" by simp_all
    from exec_op_la [OF ds rd2 s1(6) fits, of rest2] h show ?thesis by auto
  qed
  show ?thesis
    using s1(1-4) second by blast
qed

definition la_sim :: sim where
  "la_sim = MIPSInterpreter\<lparr>regs := (replicate 32 0)[29 := 0x7ffffffc],
     data_strings := [(''str0'', ''hi''), (''str1'', ''yo'')]\<rparr>"

lemma la_sim_facts:
  "map_of (data_strings la_sim) ''str0'' = Some ''hi'' \<and> map_of reg_names ''$t0'' = Some 8
   \<and> (8::nat) \<noteq> 0 \<and> length (regs la_sim) = 32 \<and> length ''str0'' < 0xF0000000
   \<and> ''str1'' \<noteq> ''str0'' \<and> length ''str1'' = length ''str0''
   \<and> map_of (data_strings la_sim) ''str1'' = Some ''yo'' \<and> map_of reg_names ''$a0'' = Some 4
   \<and> (4::nat) \<noteq> 0"
  by (simp add: la_sim_def MIPSInterpreter_def reg_names_def)

theorem la_materializes_string_witness:
  "\<exists>s1 s2. exec_op ''la'' [''$t0'', ''str0''] la_sim = Ok s1
     \<and> get_reg s1 ''$t0'' = Inr (0x10000000 + int (length ''str0''))
     \<and> dict_get (memory s1) (0x10000000 + int (length ''str0'') + int 1) 0 = int (code_of (''hi'' ! 1))
     \<and> exec_op ''la'' [''$a0'', ''str1''] s1 = Ok s2
     \<and> get_reg s2 ''$a0'' = Inr (0x10000000 + int (length ''str0''))
     \<and> dict_get (memory s2) (0x10000000 + int (length ''str0'') + int 1) 0 = int (code_of (''yo'' ! 1))
     \<and> dict_get (memory s2) (0x10000000 + int (length ''str0'') + int (length ''yo'')) 0 = 0"
proof -
  have f: "map_of (data_strings la_sim) ''str0'' = Some ''hi''" "map_of reg_names ''$t0'' = Some 8"
    "(8::nat) \<noteq> 0" "length (regs la_sim) = 32" "length ''str0'' < 0xF0000000"
    using la_sim_facts by blast+
  from la_materializes_string [OF f, of "[]"] obtain s1 where
    s1: "exec_op ''la'' [''$t0'', ''str0''] la_sim = Ok s1"
      "get_reg s1 ''$t0'' = Inr (0x10000000 + int (length ''str0''))"
      "\<forall>i < length ''hi''. dict_get (memory s1) (0x10000000 + int (length ''str0'') + int i) 0
             = int (code_of (''hi'' ! i))"
    and second: "\<forall>L2 str2 rd2 idx2 rest2.
            L2 \<noteq> ''str0'' \<and> length L2 = length ''str0'' \<and> map_of (data_strings la_sim) L2 = Some str2
            \<and> map_of reg_names rd2 = Some idx2 \<and> idx2 \<noteq> 0 \<longrightarrow>
            (\<exists>s2. exec_op ''la'' (rd2 # L2 # rest2) s1 = Ok s2
               \<and> get_reg s2 rd2 = Inr (0x10000000 + int (length ''str0''))
               \<and> (\<forall>i < length str2. dict_get (memory s2) (0x10000000 + int (length ''str0'') + int i) 0
                      = int (code_of (str2 ! i)))
               \<and> dict_get (memory s2) (0x10000000 + int (length ''str0'') + int (length str2)) 0 = 0)"
    by blast
  have h: "''str1'' \<noteq> ''str0'' \<and> length ''str1'' = length ''str0''
      \<and> map_of (data_strings la_sim) ''str1'' = Some ''yo''
      \<and> map_of reg_names ''$a0'' = Some 4 \<and> (4::nat) \<noteq> 0"
    using la_sim_facts by blast
  from second [rule_format, OF h, of "[]"] obtain s2 where
    s2: "exec_op ''la'' [''$a0'', ''str1''] s1 = Ok s2"
      "get_reg s2 ''$a0'' = Inr (0x10000000 + int (length ''str0''))"
      "\<forall>i < length ''yo''. dict_get (memory s2) (0x10000000 + int (length ''str0'') + int i) 0
             = int (code_of (''yo'' ! i))"
      "dict_get (memory s2) (0x10000000 + int (length ''str0'') + int (length ''yo'')) 0 = 0"
    by blast
  have one: "(1::nat) < length ''hi''" "(1::nat) < length ''yo''" by simp_all
  show ?thesis
    using s1(1,2) s1(3) [rule_format, OF one(1)] s2(1,2,4) s2(3) [rule_format, OF one(2)]
    by blast
qed

section \<open>The relational operators, generated and simulated\<close>

text \<open>The value of a 32-bit register read as a two's complement number.\<close>

definition signed32 :: "int \<Rightarrow> int" where
  "signed32 v = sint (word_of_int v :: 32 word)"

text \<open>What each relational operator of the source language means on two register values.\<close>

definition relation_holds :: "string \<Rightarrow> int \<Rightarrow> int \<Rightarrow> bool" where
  "relation_holds op a b =
     (if op = ''=='' then a = b
      else if op = ''!='' then a \<noteq> b
      else if op = ''<'' then signed32 a < signed32 b
      else if op = ''>'' then signed32 b < signed32 a
      else if op = ''<='' then \<not> signed32 b < signed32 a
      else \<not> signed32 a < signed32 b)"

lemma mask32: "(0xFFFFFFFF :: int) = mask 32"
  by (simp add: mask_eq_exp_minus_1)

lemma and_mask32: "v AND 0xFFFFFFFF = v mod 2 ^ 32" for v :: int
  by (simp only: mask32 flip: take_bit_eq_mask) (simp add: take_bit_eq_mod)

lemma bit31_iff:
  fixes v :: int
  assumes "0 \<le> v" and "v < 2 ^ 32"
  shows "v AND 0x80000000 \<noteq> 0 \<longleftrightarrow> 2 ^ 31 \<le> v"
proof -
  have e: "(0x80000000 :: int) = 2 ^ 31" by simp
  have "v AND 2 ^ 31 \<noteq> 0 \<longleftrightarrow> bit v 31"
    using and_exp_eq_0_iff_not_bit [of v 31] by blast
  also have "\<dots> \<longleftrightarrow> odd (v div 2 ^ 31)"
    by (simp add: bit_iff_odd)
  also have "\<dots> \<longleftrightarrow> 2 ^ 31 \<le> v"
  proof (cases "v < 2 ^ 31")
    case True
    then show ?thesis using assms(1) by simp
  next
    case False
    then have "v div 2 ^ 31 = 1"
      using assms(2) by (intro int_div_pos_eq [where r = "v - 2 ^ 31"]) simp_all
    then show ?thesis using False by simp
  qed
  finally show ?thesis by (simp only: e)
qed

lemma to_signed_signed32:
  fixes v :: int
  assumes "0 \<le> v" and "v < 2 ^ 32"
  shows "to_signed v = signed32 v"
proof (cases "v < 2 ^ 31")
  case True
  then have "to_signed v = v"
    using bit31_iff [OF assms] by (simp add: to_signed_def)
  moreover have "signed32 v = v"
    using True assms by (simp add: signed32_def int_word_sint)
  ultimately show ?thesis by simp
next
  case False
  then have "to_signed v = v - 2 ^ 32"
    using bit31_iff [OF assms] by (simp add: to_signed_def)
  moreover have "(v + 2 ^ 31) mod 2 ^ 32 = v + 2 ^ 31 - 2 ^ 32"
    using False assms by (simp add: mod_pos_geq)
  then have "signed32 v = v - 2 ^ 32"
    by (simp add: signed32_def int_word_sint)
  ultimately show ?thesis by simp
qed

lemma to_signed_0: "to_signed 0 = 0"
  by (simp add: to_signed_def)

lemma to_signed_sign:
  fixes d :: int
  assumes "0 \<le> d" and "d < 2 ^ 32"
  shows "(to_signed d < 0 \<or> 0 < to_signed d) \<longleftrightarrow> d \<noteq> 0"
  using bit31_iff [OF assms] assms by (auto simp: to_signed_def)

lemma diff_mod_zero:
  fixes a b :: int
  assumes "0 \<le> a" "a < 2 ^ 32" "0 \<le> b" "b < 2 ^ 32"
  shows "(a - b) mod 2 ^ 32 = 0 \<longleftrightarrow> a = b"
proof
  assume "(a - b) mod 2 ^ 32 = 0"
  then have "2 ^ 32 dvd a - b" by (simp add: dvd_eq_mod_eq_0)
  then obtain k where k: "a - b = 2 ^ 32 * k" by (auto simp: dvd_def)
  have "- (2 ^ 32) < a - b" "a - b < 2 ^ 32" using assms by simp_all
  then have "k = 0" using k by auto
  then show "a = b" using k by simp
qed simp

text \<open>The instructions of the six sequences, decoded and executed on a state with 32 registers.\<close>

lemma execute_decoded:
  assumes "CHR ''#'' \<notin> set inst" and "split_ws (strip inst) = op # ps" and "operands_of ps = ops"
  shows "execute inst s = exec_op op ops s"
  using assms by (simp add: execute_def)

lemma relational_decode:
  "CHR ''#'' \<notin> set ''sub $t0, $t0, $t1'' \<and> split_ws (strip ''sub $t0, $t0, $t1'') = [''sub'', ''$t0,'', ''$t0,'', ''$t1'']
     \<and> operands_of [''$t0,'', ''$t0,'', ''$t1''] = [''$t0'', ''$t0'', ''$t1'']"
  "CHR ''#'' \<notin> set ''slt $t2, $t0, $zero'' \<and> split_ws (strip ''slt $t2, $t0, $zero'') = [''slt'', ''$t2,'', ''$t0,'', ''$zero'']
     \<and> operands_of [''$t2,'', ''$t0,'', ''$zero''] = [''$t2'', ''$t0'', ''$zero'']"
  "CHR ''#'' \<notin> set ''slt $t3, $zero, $t0'' \<and> split_ws (strip ''slt $t3, $zero, $t0'') = [''slt'', ''$t3,'', ''$zero,'', ''$t0'']
     \<and> operands_of [''$t3,'', ''$zero,'', ''$t0''] = [''$t3'', ''$zero'', ''$t0'']"
  "CHR ''#'' \<notin> set ''or $t0, $t2, $t3'' \<and> split_ws (strip ''or $t0, $t2, $t3'') = [''or'', ''$t0,'', ''$t2,'', ''$t3'']
     \<and> operands_of [''$t0,'', ''$t2,'', ''$t3''] = [''$t0'', ''$t2'', ''$t3'']"
  "CHR ''#'' \<notin> set ''xori $t0, $t0, 1'' \<and> split_ws (strip ''xori $t0, $t0, 1'') = [''xori'', ''$t0,'', ''$t0,'', ''1'']
     \<and> operands_of [''$t0,'', ''$t0,'', ''1''] = [''$t0'', ''$t0'', ''1'']"
  "CHR ''#'' \<notin> set ''sltu $t0, $zero, $t0'' \<and> split_ws (strip ''sltu $t0, $zero, $t0'') = [''sltu'', ''$t0,'', ''$zero,'', ''$t0'']
     \<and> operands_of [''$t0,'', ''$zero,'', ''$t0''] = [''$t0'', ''$zero'', ''$t0'']"
  "CHR ''#'' \<notin> set ''andi $t0, $t0, 1'' \<and> split_ws (strip ''andi $t0, $t0, 1'') = [''andi'', ''$t0,'', ''$t0,'', ''1'']
     \<and> operands_of [''$t0,'', ''$t0,'', ''1''] = [''$t0'', ''$t0'', ''1'']"
  "CHR ''#'' \<notin> set ''slt $t0, $t1, $t0'' \<and> split_ws (strip ''slt $t0, $t1, $t0'') = [''slt'', ''$t0,'', ''$t1,'', ''$t0'']
     \<and> operands_of [''$t0,'', ''$t1,'', ''$t0''] = [''$t0'', ''$t1'', ''$t0'']"
  "CHR ''#'' \<notin> set ''slt $t0, $t0, $t1'' \<and> split_ws (strip ''slt $t0, $t0, $t1'') = [''slt'', ''$t0,'', ''$t0,'', ''$t1'']
     \<and> operands_of [''$t0,'', ''$t0,'', ''$t1''] = [''$t0'', ''$t0'', ''$t1'']"
  by code_simp+

lemma py_int_1: "py_int ''1'' = Inr 1"
  by code_simp

lemma get_reg_t:
  assumes "length (regs s) = 32"
  shows "get_reg s ''$t0'' = Inr (regs s ! 8)" "get_reg s ''$t1'' = Inr (regs s ! 9)"
    "get_reg s ''$t2'' = Inr (regs s ! 10)" "get_reg s ''$t3'' = Inr (regs s ! 11)"
  using assms by (simp_all add: get_reg_def reg_names_def item_def)

lemma set_reg_t:
  assumes "length (regs s) = 32"
  shows "set_reg ''$t0'' v s = Inr (s\<lparr>regs := (regs s)[8 := v AND 0xFFFFFFFF]\<rparr>)"
    "set_reg ''$t2'' v s = Inr (s\<lparr>regs := (regs s)[10 := v AND 0xFFFFFFFF]\<rparr>)"
    "set_reg ''$t3'' v s = Inr (s\<lparr>regs := (regs s)[11 := v AND 0xFFFFFFFF]\<rparr>)"
  using assms by (simp_all add: set_reg_def reg_names_def)

lemmas alu_simps =
  exec_op_def reg_reg_op_def reg_imm_op_def raising_def item_def get_reg_t set_reg_t
  get_reg_zero py_int_1 next_pc_def

lemma execute_sub:
  "length (regs s) = 32 \<Longrightarrow> execute ''sub $t0, $t0, $t1'' s =
     Ok (s\<lparr>regs := (regs s)[8 := (regs s ! 8 - regs s ! 9) AND 0xFFFFFFFF], pc := pc s + 1\<rparr>)"
  using relational_decode(1) by (simp add: execute_decoded [of _ "''sub''"] alu_simps)

lemma execute_slt_neg:
  "length (regs s) = 32 \<Longrightarrow> execute ''slt $t2, $t0, $zero'' s =
     Ok (s\<lparr>regs := (regs s)[10 := (if to_signed (regs s ! 8) < to_signed 0 then 1 else 0) AND 0xFFFFFFFF],
          pc := pc s + 1\<rparr>)"
  using relational_decode(2) by (simp add: execute_decoded [of _ "''slt''"] alu_simps)

lemma execute_slt_pos:
  "length (regs s) = 32 \<Longrightarrow> execute ''slt $t3, $zero, $t0'' s =
     Ok (s\<lparr>regs := (regs s)[11 := (if to_signed 0 < to_signed (regs s ! 8) then 1 else 0) AND 0xFFFFFFFF],
          pc := pc s + 1\<rparr>)"
  using relational_decode(3) by (simp add: execute_decoded [of _ "''slt''"] alu_simps)

lemma execute_or:
  "length (regs s) = 32 \<Longrightarrow> execute ''or $t0, $t2, $t3'' s =
     Ok (s\<lparr>regs := (regs s)[8 := (regs s ! 10 OR regs s ! 11) AND 0xFFFFFFFF], pc := pc s + 1\<rparr>)"
  using relational_decode(4) by (simp add: execute_decoded [of _ "''or''"] alu_simps)

lemma execute_xori:
  "length (regs s) = 32 \<Longrightarrow> execute ''xori $t0, $t0, 1'' s =
     Ok (s\<lparr>regs := (regs s)[8 := (regs s ! 8 XOR 1) AND 0xFFFFFFFF], pc := pc s + 1\<rparr>)"
  using relational_decode(5) by (simp add: execute_decoded [of _ "''xori''"] alu_simps)

lemma execute_sltu:
  "length (regs s) = 32 \<Longrightarrow> execute ''sltu $t0, $zero, $t0'' s =
     Ok (s\<lparr>regs := (regs s)[8 := (if 0 < regs s ! 8 then 1 else 0) AND 0xFFFFFFFF], pc := pc s + 1\<rparr>)"
  using relational_decode(6) by (simp add: execute_decoded [of _ "''sltu''"] alu_simps)

lemma execute_andi:
  "length (regs s) = 32 \<Longrightarrow> execute ''andi $t0, $t0, 1'' s =
     Ok (s\<lparr>regs := (regs s)[8 := (regs s ! 8 AND 1) AND 0xFFFFFFFF], pc := pc s + 1\<rparr>)"
  using relational_decode(7) by (simp add: execute_decoded [of _ "''andi''"] alu_simps)

lemma execute_slt_gt:
  "length (regs s) = 32 \<Longrightarrow> execute ''slt $t0, $t1, $t0'' s =
     Ok (s\<lparr>regs := (regs s)[8 := (if to_signed (regs s ! 9) < to_signed (regs s ! 8) then 1 else 0)
                                    AND 0xFFFFFFFF], pc := pc s + 1\<rparr>)"
  using relational_decode(8) by (simp add: execute_decoded [of _ "''slt''"] alu_simps)

lemma execute_slt_lt:
  "length (regs s) = 32 \<Longrightarrow> execute ''slt $t0, $t0, $t1'' s =
     Ok (s\<lparr>regs := (regs s)[8 := (if to_signed (regs s ! 8) < to_signed (regs s ! 9) then 1 else 0)
                                    AND 0xFFFFFFFF], pc := pc s + 1\<rparr>)"
  using relational_decode(9) by (simp add: execute_decoded [of _ "''slt''"] alu_simps)

text \<open>
  A state of the simulator in the middle of a straight-line sequence: the registers \<open>r\<close>
  and the program counter \<open>k\<close>, everything else as in \<open>s\<close>.
\<close>

definition midway :: "sim \<Rightarrow> int list \<Rightarrow> nat \<Rightarrow> sim" where
  "midway s r k = s\<lparr>regs := r, pc := int k\<rparr>"

text \<open>
  A line of the program is an arithmetic step \<open>(i, g)\<close> when executing it writes \<open>g\<close> of the
  registers to slot \<open>i\<close> and moves to the next instruction.
\<close>

definition alu_line :: "string \<Rightarrow> nat \<times> (int list \<Rightarrow> int) \<Rightarrow> bool" where
  "alu_line line step =
     (strip line \<noteq> [] \<and> \<not> startswith (strip line) ''#'' \<and>
      (\<forall>s. length (regs s) = 32 \<longrightarrow>
         execute (strip line) s =
           Ok (s\<lparr>regs := (regs s)[fst step := snd step (regs s)], pc := pc s + 1\<rparr>)))"

definition alu_steps :: "(nat \<times> (int list \<Rightarrow> int)) list \<Rightarrow> int list \<Rightarrow> int list" where
  "alu_steps steps r = fold (\<lambda>step r'. r'[fst step := snd step r']) steps r"

lemma run_loop_alu_seq:
  assumes "list_all2 alu_line lines steps" and "instructions s = pre @ lines" and "running s"
    and "length r = 32" and "n + length lines \<le> max_iter"
  shows "run_loop (midway s r (length pre)) n =
     Stopped (midway s (alu_steps steps r) (length pre + length lines)) (n + length lines)"
  using assms
proof (induction lines arbitrary: steps pre r n)
  case Nil
  then have "steps = []" by simp
  moreover have "run_loop (midway s r (length pre)) n = Stopped (midway s r (length pre)) n"
    using Nil.prems(2) by (subst run_loop.simps) (simp add: midway_def)
  ultimately show ?case by (simp add: alu_steps_def)
next
  case (Cons line lines)
  from Cons.prems(1) obtain step steps' where steps: "steps = step # steps'"
    and line: "alu_line line step" and rest: "list_all2 alu_line lines steps'"
    by (auto simp: list_all2_Cons1)
  let ?r1 = "r[fst step := snd step r]"
  have ex: "execute (strip line) (midway s r (length pre))
      = Ok (midway s ?r1 (Suc (length pre)))"
    using line Cons.prems(4) by (simp add: alu_line_def midway_def add.commute)
  have fetch: "run_loop (midway s r (length pre)) n =
      (case execute (strip line) (midway s r (length pre)) of
         Raise e s' \<Rightarrow> Crashed e s' | Ok s' \<Rightarrow> run_loop s' (n + 1))"
    using line Cons.prems(2,3,5)
    by (intro run_loop_fetch) (simp_all add: midway_def alu_line_def)
  have "run_loop (midway s ?r1 (length (pre @ [line]))) (n + 1) =
      Stopped (midway s (alu_steps steps' ?r1) (length (pre @ [line]) + length lines))
        (n + 1 + length lines)"
    using rest Cons.prems(2,3,4,5) by (intro Cons.IH) simp_all
  then show ?case
    using fetch ex steps by (simp add: alu_steps_def)
qed

lemma alu_lineI:
  assumes "strip line = inst" and "inst \<noteq> []" and "hd inst \<noteq> CHR ''#''"
    and "\<And>s. length (regs s) = 32 \<Longrightarrow>
      execute inst s = Ok (s\<lparr>regs := (regs s)[i := g (regs s)], pc := pc s + 1\<rparr>)"
  shows "alu_line line (i, g)"
proof -
  have "\<not> startswith inst ''#''"
    using assms(2,3) by (cases inst) (simp_all add: startswith_def)
  then show ?thesis using assms by (simp add: alu_line_def)
qed

lemma relational_strip:
  "strip ''    sub $t0, $t0, $t1'' = ''sub $t0, $t0, $t1''"
  "strip ''    slt $t2, $t0, $zero'' = ''slt $t2, $t0, $zero''"
  "strip ''    slt $t3, $zero, $t0'' = ''slt $t3, $zero, $t0''"
  "strip ''    or $t0, $t2, $t3'' = ''or $t0, $t2, $t3''"
  "strip ''    xori $t0, $t0, 1'' = ''xori $t0, $t0, 1''"
  "strip ''    sltu $t0, $zero, $t0'' = ''sltu $t0, $zero, $t0''"
  "strip ''    andi $t0, $t0, 1'' = ''andi $t0, $t0, 1''"
  "strip ''    slt $t0, $t1, $t0'' = ''slt $t0, $t1, $t0''"
  "strip ''    slt $t0, $t0, $t1'' = ''slt $t0, $t0, $t1''"
  by code_simp+

lemma relational_alu_lines:
  "alu_line ''    sub $t0, $t0, $t1'' (8, \<lambda>r. (r ! 8 - r ! 9) AND 0xFFFFFFFF)"
  "alu_line ''    slt $t2, $t0, $zero''
     (10, \<lambda>r. (if to_signed (r ! 8) < to_signed 0 then 1 else 0) AND 0xFFFFFFFF)"
  "alu_line ''    slt $t3, $zero, $t0''
     (11, \<lambda>r. (if to_signed 0 < to_signed (r ! 8) then 1 else 0) AND 0xFFFFFFFF)"
  "alu_line ''    or $t0, $t2, $t3'' (8, \<lambda>r. (r ! 10 OR r ! 11) AND 0xFFFFFFFF)"
  "alu_line ''    xori $t0, $t0, 1'' (8, \<lambda>r. (r ! 8 XOR 1) AND 0xFFFFFFFF)"
  "alu_line ''    sltu $t0, $zero, $t0'' (8, \<lambda>r. (if 0 < r ! 8 then 1 else 0) AND 0xFFFFFFFF)"
  "alu_line ''    andi $t0, $t0, 1'' (8, \<lambda>r. (r ! 8 AND 1) AND 0xFFFFFFFF)"
  "alu_line ''    slt $t0, $t1, $t0''
     (8, \<lambda>r. (if to_signed (r ! 9) < to_signed (r ! 8) then 1 else 0) AND 0xFFFFFFFF)"
  "alu_line ''    slt $t0, $t0, $t1''
     (8, \<lambda>r. (if to_signed (r ! 8) < to_signed (r ! 9) then 1 else 0) AND 0xFFFFFFFF)"
  apply (rule alu_lineI, rule relational_strip, simp, simp, erule execute_sub)
  apply (rule alu_lineI, rule relational_strip, simp, simp, erule execute_slt_neg)
  apply (rule alu_lineI, rule relational_strip, simp, simp, erule execute_slt_pos)
  apply (rule alu_lineI, rule relational_strip, simp, simp, erule execute_or)
  apply (rule alu_lineI, rule relational_strip, simp, simp, erule execute_xori)
  apply (rule alu_lineI, rule relational_strip, simp, simp, erule execute_sltu)
  apply (rule alu_lineI, rule relational_strip, simp, simp, erule execute_andi)
  apply (rule alu_lineI, rule relational_strip, simp, simp, erule execute_slt_gt)
  apply (rule alu_lineI, rule relational_strip, simp, simp, erule execute_slt_lt)
  done

lemma flag_values:
  "(1::int) AND 0xFFFFFFFF = 1" "(0::int) AND 0xFFFFFFFF = 0" "((1::int) XOR 1) AND 0xFFFFFFFF = 0"
  "((0::int) XOR 1) AND 0xFFFFFFFF = 1" "((1::int) AND 1) AND 0xFFFFFFFF = 1"
  "((0::int) AND 1) AND 0xFFFFFFFF = 0" "((1::int) OR 0) AND 0xFFFFFFFF = 1"
  "((0::int) OR 1) AND 0xFFFFFFFF = 1" "((0::int) OR 0) AND 0xFFFFFFFF = 0"
  "((1::int) OR 1) AND 0xFFFFFFFF = 1"
  by code_simp+

lemma diff_in_range:
  fixes a b :: int
  shows "0 \<le> (a - b) AND 0xFFFFFFFF \<and> (a - b) AND 0xFFFFFFFF < 2 ^ 32"
  by (simp add: and_mask32)

lemma relational_results:
  fixes r :: "int list"
  assumes len: "length r = 32" and a: "0 \<le> r ! 8" "r ! 8 < 2 ^ 32" and b: "0 \<le> r ! 9" "r ! 9 < 2 ^ 32"
  shows "alu_steps [(8, \<lambda>r. (r ! 8 - r ! 9) AND 0xFFFFFFFF),
            (10, \<lambda>r. (if to_signed (r ! 8) < to_signed 0 then 1 else 0) AND 0xFFFFFFFF),
            (11, \<lambda>r. (if to_signed 0 < to_signed (r ! 8) then 1 else 0) AND 0xFFFFFFFF),
            (8, \<lambda>r. (r ! 10 OR r ! 11) AND 0xFFFFFFFF),
            (8, \<lambda>r. (r ! 8 XOR 1) AND 0xFFFFFFFF)] r ! 8
          = (if r ! 8 = r ! 9 then 1 else 0)"
    and "alu_steps [(8, \<lambda>r. (r ! 8 - r ! 9) AND 0xFFFFFFFF),
            (8, \<lambda>r. (if 0 < r ! 8 then 1 else 0) AND 0xFFFFFFFF),
            (8, \<lambda>r. (r ! 8 AND 1) AND 0xFFFFFFFF)] r ! 8
          = (if r ! 8 \<noteq> r ! 9 then 1 else 0)"
    and "alu_steps [(8, \<lambda>r. (if to_signed (r ! 8) < to_signed (r ! 9) then 1 else 0) AND 0xFFFFFFFF)] r ! 8
          = (if signed32 (r ! 8) < signed32 (r ! 9) then 1 else 0)"
    and "alu_steps [(8, \<lambda>r. (if to_signed (r ! 9) < to_signed (r ! 8) then 1 else 0) AND 0xFFFFFFFF)] r ! 8
          = (if signed32 (r ! 9) < signed32 (r ! 8) then 1 else 0)"
    and "alu_steps [(8, \<lambda>r. (if to_signed (r ! 9) < to_signed (r ! 8) then 1 else 0) AND 0xFFFFFFFF),
            (8, \<lambda>r. (r ! 8 XOR 1) AND 0xFFFFFFFF)] r ! 8
          = (if \<not> signed32 (r ! 9) < signed32 (r ! 8) then 1 else 0)"
    and "alu_steps [(8, \<lambda>r. (if to_signed (r ! 8) < to_signed (r ! 9) then 1 else 0) AND 0xFFFFFFFF),
            (8, \<lambda>r. (r ! 8 XOR 1) AND 0xFFFFFFFF)] r ! 8
          = (if \<not> signed32 (r ! 8) < signed32 (r ! 9) then 1 else 0)"
proof -
  let ?d = "(r ! 8 - r ! 9) AND 0xFFFFFFFF"
  have d: "0 \<le> ?d" "?d < 2 ^ 32" using diff_in_range [of "r ! 8" "r ! 9"] by simp_all
  have dz: "?d = 0 \<longleftrightarrow> r ! 8 = r ! 9"
    using diff_mod_zero [OF a b] by (simp add: and_mask32)
  have sign: "(to_signed ?d < 0 \<or> 0 < to_signed ?d) \<longleftrightarrow> ?d \<noteq> 0"
    by (rule to_signed_sign [OF d])
  have sa: "to_signed (r ! 8) = signed32 (r ! 8)" by (rule to_signed_signed32 [OF a])
  have sb: "to_signed (r ! 9) = signed32 (r ! 9)" by (rule to_signed_signed32 [OF b])
  show "alu_steps [(8, \<lambda>r. (r ! 8 - r ! 9) AND 0xFFFFFFFF),
            (10, \<lambda>r. (if to_signed (r ! 8) < to_signed 0 then 1 else 0) AND 0xFFFFFFFF),
            (11, \<lambda>r. (if to_signed 0 < to_signed (r ! 8) then 1 else 0) AND 0xFFFFFFFF),
            (8, \<lambda>r. (r ! 10 OR r ! 11) AND 0xFFFFFFFF),
            (8, \<lambda>r. (r ! 8 XOR 1) AND 0xFFFFFFFF)] r ! 8
          = (if r ! 8 = r ! 9 then 1 else 0)"
  proof (cases "r ! 8 = r ! 9")
    case True
    then have "?d = 0" using dz by simp
    then show ?thesis using len True
      by (simp add: alu_steps_def to_signed_0 flag_values)
  next
    case False
    then have "to_signed ?d < 0 \<or> 0 < to_signed ?d" using sign dz by simp
    then show ?thesis using len False
      by (auto simp: alu_steps_def to_signed_0 flag_values)
  qed
  show "alu_steps [(8, \<lambda>r. (r ! 8 - r ! 9) AND 0xFFFFFFFF),
            (8, \<lambda>r. (if 0 < r ! 8 then 1 else 0) AND 0xFFFFFFFF),
            (8, \<lambda>r. (r ! 8 AND 1) AND 0xFFFFFFFF)] r ! 8
          = (if r ! 8 \<noteq> r ! 9 then 1 else 0)"
  proof (cases "r ! 8 = r ! 9")
    case True
    then have "?d = 0" using dz by simp
    then show ?thesis using len True by (simp add: alu_steps_def flag_values)
  next
    case False
    then have "0 < ?d" using d(1) dz by linarith
    then show ?thesis using len False by (simp add: alu_steps_def flag_values)
  qed
  show "alu_steps [(8, \<lambda>r. (if to_signed (r ! 8) < to_signed (r ! 9) then 1 else 0) AND 0xFFFFFFFF)] r ! 8
          = (if signed32 (r ! 8) < signed32 (r ! 9) then 1 else 0)"
    using len sa sb by (simp add: alu_steps_def flag_values)
  show "alu_steps [(8, \<lambda>r. (if to_signed (r ! 9) < to_signed (r ! 8) then 1 else 0) AND 0xFFFFFFFF)] r ! 8
          = (if signed32 (r ! 9) < signed32 (r ! 8) then 1 else 0)"
    using len sa sb by (simp add: alu_steps_def flag_values)
  show "alu_steps [(8, \<lambda>r. (if to_signed (r ! 9) < to_signed (r ! 8) then 1 else 0) AND 0xFFFFFFFF),
            (8, \<lambda>r. (r ! 8 XOR 1) AND 0xFFFFFFFF)] r ! 8
          = (if \<not> signed32 (r ! 9) < signed32 (r ! 8) then 1 else 0)"
    using len sa sb by (simp add: alu_steps_def flag_values)
  show "alu_steps [(8, \<lambda>r. (if to_signed (r ! 8) < to_signed (r ! 9) then 1 else 0) AND 0xFFFFFFFF),
            (8, \<lambda>r. (r ! 8 XOR 1) AND 0xFFFFFFFF)] r ! 8
          = (if \<not> signed32 (r ! 8) < signed32 (r ! 9) then 1 else 0)"
    using len sa sb by (simp add: alu_steps_def flag_values)
qed

lemma alu_steps_length: "length (alu_steps steps r) = length r"
  unfolding alu_steps_def by (induction steps arbitrary: r) simp_all

lemma relational_steps:
  assumes "op \<in> {''=='', ''!='', ''<'', ''>'', ''<='', ''>=''}"
    and len: "length r = 32" and a: "0 \<le> r ! 8" "r ! 8 < 2 ^ 32" and b: "0 \<le> r ! 9" "r ! 9 < 2 ^ 32"
  shows "\<exists>steps. list_all2 alu_line (binop_lines op) steps
     \<and> alu_steps steps r ! 8 = (if relation_holds op (r ! 8) (r ! 9) then 1 else 0)"
proof -
  note res = relational_results [OF len a b]
  consider "op = ''==''" | "op = ''!=''" | "op = ''<''" | "op = ''>''" | "op = ''<=''" | "op = ''>=''"
    using assms(1) by auto
  then show ?thesis
  proof cases
    case 1
    show ?thesis
      by (rule exI [where x = "[(8, \<lambda>r. (r ! 8 - r ! 9) AND 0xFFFFFFFF),
            (10, \<lambda>r. (if to_signed (r ! 8) < to_signed 0 then 1 else 0) AND 0xFFFFFFFF),
            (11, \<lambda>r. (if to_signed 0 < to_signed (r ! 8) then 1 else 0) AND 0xFFFFFFFF),
            (8, \<lambda>r. (r ! 10 OR r ! 11) AND 0xFFFFFFFF),
            (8, \<lambda>r. (r ! 8 XOR 1) AND 0xFFFFFFFF)]"])
         (simp add: 1 binop_lines_def relation_holds_def relational_alu_lines res(1))
  next
    case 2
    show ?thesis
      by (rule exI [where x = "[(8, \<lambda>r. (r ! 8 - r ! 9) AND 0xFFFFFFFF),
            (8, \<lambda>r. (if 0 < r ! 8 then 1 else 0) AND 0xFFFFFFFF),
            (8, \<lambda>r. (r ! 8 AND 1) AND 0xFFFFFFFF)]"])
         (simp add: 2 binop_lines_def relation_holds_def relational_alu_lines res(2))
  next
    case 3
    show ?thesis
      by (rule exI [where x = "[(8, \<lambda>r. (if to_signed (r ! 8) < to_signed (r ! 9) then 1 else 0) AND 0xFFFFFFFF)]"])
         (simp add: 3 binop_lines_def relation_holds_def relational_alu_lines res(3))
  next
    case 4
    show ?thesis
      by (rule exI [where x = "[(8, \<lambda>r. (if to_signed (r ! 9) < to_signed (r ! 8) then 1 else 0) AND 0xFFFFFFFF)]"])
         (simp add: 4 binop_lines_def relation_holds_def relational_alu_lines res(4))
  next
    case 5
    show ?thesis
      by (rule exI [where x = "[(8, \<lambda>r. (if to_signed (r ! 9) < to_signed (r ! 8) then 1 else 0) AND 0xFFFFFFFF),
            (8, \<lambda>r. (r ! 8 XOR 1) AND 0xFFFFFFFF)]"])
         (simp add: 5 binop_lines_def relation_holds_def relational_alu_lines res(5))
  next
    case 6
    show ?thesis
      by (rule exI [where x = "[(8, \<lambda>r. (if to_signed (r ! 8) < to_signed (r ! 9) then 1 else 0) AND 0xFFFFFFFF),
            (8, \<lambda>r. (r ! 8 XOR 1) AND 0xFFFFFFFF)]"])
         (simp add: 6 binop_lines_def relation_holds_def relational_alu_lines res(6))
  qed
qed

text \<open>
  C1. The lowering of the relational operators is exact. Let the simulator hold the lines
  that \<^verbatim>\<open>gen_expr\<close> emits for a relational operator as its program, with 32-bit values \<open>a\<close>
  in \<^verbatim>\<open>$t0\<close> and \<open>b\<close> in \<^verbatim>\<open>$t1\<close>. Then the run loop executes the whole sequence, stops at its
  end and leaves in \<^verbatim>\<open>$t0\<close> the value 1 when the relation holds and 0 when it does not:
  \<^verbatim>\<open>==\<close> is equality and \<^verbatim>\<open>!=\<close> inequality of the two values, \<^verbatim>\<open><\<close> and \<^verbatim>\<open>>\<close> are the strict
  orders of the values read as signed 32-bit numbers, and \<^verbatim>\<open><=\<close> and \<^verbatim>\<open>>=\<close> are the negations
  of the opposite strict orders.
\<close>

theorem relational_lowering:
  assumes "op \<in> {''=='', ''!='', ''<'', ''>'', ''<='', ''>=''}"
    and "length (regs s) = 32" and "running s" and "pc s = 0" and "instructions s = binop_lines op"
    and "regs s ! 8 = a" and "regs s ! 9 = b"
    and "0 \<le> a" and "a < 2 ^ 32" and "0 \<le> b" and "b < 2 ^ 32"
  shows "\<exists>s'. run_loop s 0 = Stopped s' (length (binop_lines op))
      \<and> get_reg s' ''$t0'' = Inr (if relation_holds op a b then 1 else 0)"
proof -
  from relational_steps [OF assms(1,2), unfolded assms(6,7), OF assms(8-11)]
  obtain steps where steps: "list_all2 alu_line (binop_lines op) steps"
    and val: "alu_steps steps (regs s) ! 8 = (if relation_holds op a b then 1 else 0)"
    by blast
  have short: "0 + length (binop_lines op) \<le> max_iter"
    by (simp add: binop_lines_def max_iter_def)
  have start: "midway s (regs s) (length ([] :: string list)) = s"
    using assms(4) by (simp add: midway_def)
  let ?s' = "midway s (alu_steps steps (regs s)) (length ([] :: string list) + length (binop_lines op))"
  have "run_loop s 0 = Stopped ?s' (0 + length (binop_lines op))"
    using run_loop_alu_seq [OF steps _ assms(3,2) short, of "[]"] assms(5) start by simp
  moreover have "get_reg ?s' ''$t0'' = Inr (if relation_holds op a b then 1 else 0)"
    using val assms(2) by (simp add: midway_def get_reg_t alu_steps_length)
  ultimately show ?thesis by auto
qed

definition compare_sim :: "string \<Rightarrow> int \<Rightarrow> int \<Rightarrow> sim" where
  "compare_sim op a b =
     MIPSInterpreter\<lparr>regs := (replicate 32 0)[8 := a, 9 := b], instructions := binop_lines op\<rparr>"

lemma compare_sim_facts:
  "length (regs (compare_sim op a b)) = 32" "running (compare_sim op a b)" "pc (compare_sim op a b) = 0"
  "instructions (compare_sim op a b) = binop_lines op"
  "regs (compare_sim op a b) ! 8 = a" "regs (compare_sim op a b) ! 9 = b"
  by (simp_all add: compare_sim_def MIPSInterpreter_def)

lemma signed32_samples: "signed32 0xFFFFFFFF = - 1" "signed32 1 = 1"
  by (simp_all add: signed32_def)

theorem relational_lowering_witness:
  "(\<exists>s'. run_loop (compare_sim ''=='' 5 5) 0 = Stopped s' 5 \<and> get_reg s' ''$t0'' = Inr 1)
   \<and> (\<exists>s'. run_loop (compare_sim ''!='' 5 5) 0 = Stopped s' 3 \<and> get_reg s' ''$t0'' = Inr 0)
   \<and> (\<exists>s'. run_loop (compare_sim ''<'' 0xFFFFFFFF 1) 0 = Stopped s' 1 \<and> get_reg s' ''$t0'' = Inr 1)
   \<and> (\<exists>s'. run_loop (compare_sim ''>='' 0xFFFFFFFF 1) 0 = Stopped s' 2 \<and> get_reg s' ''$t0'' = Inr 0)"
proof -
  have ops: "''=='' \<in> {''=='', ''!='', ''<'', ''>'', ''<='', ''>=''}"
    "''!='' \<in> {''=='', ''!='', ''<'', ''>'', ''<='', ''>=''}"
    "''<'' \<in> {''=='', ''!='', ''<'', ''>'', ''<='', ''>=''}"
    "''>='' \<in> {''=='', ''!='', ''<'', ''>'', ''<='', ''>=''}"
    by simp_all
  have r5: "(0::int) \<le> 5" "(5::int) < 2 ^ 32" and r1: "(0::int) \<le> 1" "(1::int) < 2 ^ 32"
    and rm: "(0::int) \<le> 0xFFFFFFFF" "(0xFFFFFFFF::int) < 2 ^ 32"
    by simp_all
  have 1: "\<exists>s'. run_loop (compare_sim ''=='' 5 5) 0 = Stopped s' 5 \<and> get_reg s' ''$t0'' = Inr 1"
    using relational_lowering [OF ops(1) compare_sim_facts r5 r5]
    by (simp add: binop_lines_def relation_holds_def eval_nat_numeral)
  have 2: "\<exists>s'. run_loop (compare_sim ''!='' 5 5) 0 = Stopped s' 3 \<and> get_reg s' ''$t0'' = Inr 0"
    using relational_lowering [OF ops(2) compare_sim_facts r5 r5]
    by (simp add: binop_lines_def relation_holds_def eval_nat_numeral)
  have 3: "\<exists>s'. run_loop (compare_sim ''<'' 0xFFFFFFFF 1) 0 = Stopped s' 1 \<and> get_reg s' ''$t0'' = Inr 1"
    using relational_lowering [OF ops(3) compare_sim_facts rm r1]
    by (simp add: binop_lines_def relation_holds_def signed32_samples eval_nat_numeral)
  have 4: "\<exists>s'. run_loop (compare_sim ''>='' 0xFFFFFFFF 1) 0 = Stopped s' 2 \<and> get_reg s' ''$t0'' = Inr 0"
    using relational_lowering [OF ops(4) compare_sim_facts rm r1]
    by (simp add: binop_lines_def relation_holds_def signed32_samples eval_nat_numeral)
  show ?thesis using 1 2 3 4 by blast
qed

section \<open>A program compiled and simulated\<close>

definition program_42 :: string where
  "program_42 = ''int main(){ return 42; }''"

definition tokens_42 :: "token list" where
  "tokens_42 =
    [Token ''KEYWORD'' (StrV ''int'') 1, Token ''IDENT'' (StrV ''main'') 1, Token ''PUNCT'' (StrV ''('') 1,
     Token ''PUNCT'' (StrV '')'') 1, Token ''PUNCT'' (StrV ''{'') 1, Token ''KEYWORD'' (StrV ''return'') 1,
     Token ''NUMBER'' (IntV 42) 1, Token ''PUNCT'' (StrV '';'') 1, Token ''PUNCT'' (StrV ''}'') 1]"

definition asm_42 :: string where
  "asm_42 = join (CHR 0x0A)
     [''.data'', [], ''.text'', ''.globl main'', [], ''main:'',
      ''    addi $sp, $sp, -8'', ''    sw $ra, 4($sp)'', ''    sw $fp, 0($sp)'',
      ''    move $fp, $sp'', ''    li $t0, 42'', ''    move $v0, $t0'',
      ''    j main_exit'', ''main_exit:'', ''    move $sp, $fp'',
      ''    lw $fp, 0($sp)'', ''    lw $ra, 4($sp)'', ''    addi $sp, $sp, 8'',
      ''    jr $ra'', [], [], ''print_int:'', ''    li $v0, 1'',
      ''    syscall'', ''    jr $ra'', [], ''print_str:'', ''    li $v0, 4'',
      ''    syscall'', ''    jr $ra'']"

text \<open>The states the simulator goes through: the loaded program, then one per instruction.\<close>

definition loaded_42 :: sim where
  "loaded_42 = MIPSInterpreter\<lparr>regs := (replicate 32 0)[29 := 0x7ffffffc],
     labels := [(''main'', 0), (''main_exit'', 7), (''print_int'', 12), (''print_str'', 15)],
     instructions :=
       [''addi $sp, $sp, -8'', ''sw $ra, 4($sp)'', ''sw $fp, 0($sp)'',
        ''move $fp, $sp'', ''li $t0, 42'', ''move $v0, $t0'',
        ''j main_exit'', ''move $sp, $fp'', ''lw $fp, 0($sp)'',
        ''lw $ra, 4($sp)'', ''addi $sp, $sp, 8'', ''jr $ra'', ''li $v0, 1'',
        ''syscall'', ''jr $ra'', ''li $v0, 4'', ''syscall'', ''jr $ra'']\<rparr>"

definition frame_memory :: "(int \<times> int) list" where
  "frame_memory =
     [(0x7ffffff8, 0), (0x7ffffff9, 0), (0x7ffffffa, 0), (0x7ffffffb, 0),
      (0x7ffffff4, 0), (0x7ffffff5, 0), (0x7ffffff6, 0), (0x7ffffff7, 0)]"

definition trace_42 :: "sim list" where
  "trace_42 =
    [loaded_42,
     loaded_42\<lparr>regs := (replicate 32 0)[29 := 0x7ffffff4], pc := 1\<rparr>,
     loaded_42\<lparr>regs := (replicate 32 0)[29 := 0x7ffffff4], pc := 2, memory := take 4 frame_memory\<rparr>,
     loaded_42\<lparr>regs := (replicate 32 0)[29 := 0x7ffffff4], pc := 3, memory := frame_memory\<rparr>,
     loaded_42\<lparr>regs := (replicate 32 0)[29 := 0x7ffffff4, 30 := 0x7ffffff4], pc := 4,
       memory := frame_memory\<rparr>,
     loaded_42\<lparr>regs := (replicate 32 0)[29 := 0x7ffffff4, 30 := 0x7ffffff4, 8 := 42], pc := 5,
       memory := frame_memory\<rparr>,
     loaded_42\<lparr>regs := (replicate 32 0)[29 := 0x7ffffff4, 30 := 0x7ffffff4, 8 := 42, 2 := 42], pc := 6,
       memory := frame_memory\<rparr>,
     loaded_42\<lparr>regs := (replicate 32 0)[29 := 0x7ffffff4, 30 := 0x7ffffff4, 8 := 42, 2 := 42], pc := 7,
       memory := frame_memory\<rparr>,
     loaded_42\<lparr>regs := (replicate 32 0)[29 := 0x7ffffff4, 30 := 0x7ffffff4, 8 := 42, 2 := 42], pc := 8,
       memory := frame_memory\<rparr>,
     loaded_42\<lparr>regs := (replicate 32 0)[29 := 0x7ffffff4, 8 := 42, 2 := 42], pc := 9,
       memory := frame_memory\<rparr>,
     loaded_42\<lparr>regs := (replicate 32 0)[29 := 0x7ffffff4, 8 := 42, 2 := 42], pc := 10,
       memory := frame_memory\<rparr>,
     loaded_42\<lparr>regs := (replicate 32 0)[29 := 0x7ffffffc, 8 := 42, 2 := 42], pc := 11,
       memory := frame_memory\<rparr>,
     loaded_42\<lparr>regs := (replicate 32 0)[29 := 0x7ffffffc, 8 := 42, 2 := 42], pc := 11,
       memory := frame_memory, running := False\<rparr>]"

text \<open>One turn of the run loop that executes an instruction, as a function of the state.\<close>

definition fetch_execute :: "sim \<Rightarrow> outcome option" where
  "fetch_execute s =
     (if running s \<and> 0 \<le> pc s \<and> pc s < int (length (instructions s))
      then (let inst = strip (instructions s ! nat (pc s))
            in if inst = [] \<or> startswith inst ''#'' then None else Some (execute inst s))
      else None)"

lemma run_loop_fetch_execute:
  assumes "fetch_execute s = Some (Ok s1)" and "n < max_iter" and "n' = n + 1"
  shows "run_loop s n = run_loop s1 n'"
proof -
  from assms(1) have c: "running s" "0 \<le> pc s" "pc s < int (length (instructions s))"
    "strip (instructions s ! nat (pc s)) \<noteq> []"
    "\<not> startswith (strip (instructions s ! nat (pc s))) ''#''"
    "execute (strip (instructions s ! nat (pc s))) s = Ok s1"
    by (auto simp: fetch_execute_def Let_def split: if_splits)
  show ?thesis
    using run_loop_fetch [OF c(1) assms(2) c(2,3) refl c(4,5)] c(6) assms(3) by simp
qed

lemma tokenize_42: "tokenize program_42 = Inr tokens_42"
  by code_simp

lemma parse_42: "parse 4 tokens_42 = Parsed [Function ''int'' ''main'' [Return (Some (Number 42))]] 9"
  by code_simp

lemma generate_42:
  "generate [Function ''int'' ''main'' [Return (Some (Number 42))]] CodeGen = Inr asm_42"
  by code_simp

lemma toycc_42: "toycc 4 program_42 = Some (Inr asm_42)"
  unfolding toycc_def tokenize_42 by (simp add: parse_42 generate_42)

lemma load_42: "load_program asm_42 MIPSInterpreter = Inr loaded_42"
  by code_simp

lemma start_42: "dict_has (labels loaded_42) ''main'' \<and> dict_item (labels loaded_42) ''main'' = Inr 0
    \<and> loaded_42\<lparr>pc := int 0\<rparr> = trace_42 ! 0"
  by code_simp

lemma trace_42_steps:
  "fetch_execute (trace_42 ! 0) = Some (Ok (trace_42 ! 1))"
  "fetch_execute (trace_42 ! 1) = Some (Ok (trace_42 ! 2))"
  "fetch_execute (trace_42 ! 2) = Some (Ok (trace_42 ! 3))"
  "fetch_execute (trace_42 ! 3) = Some (Ok (trace_42 ! 4))"
  "fetch_execute (trace_42 ! 4) = Some (Ok (trace_42 ! 5))"
  "fetch_execute (trace_42 ! 5) = Some (Ok (trace_42 ! 6))"
  "fetch_execute (trace_42 ! 6) = Some (Ok (trace_42 ! 7))"
  "fetch_execute (trace_42 ! 7) = Some (Ok (trace_42 ! 8))"
  "fetch_execute (trace_42 ! 8) = Some (Ok (trace_42 ! 9))"
  "fetch_execute (trace_42 ! 9) = Some (Ok (trace_42 ! 10))"
  "fetch_execute (trace_42 ! 10) = Some (Ok (trace_42 ! 11))"
  "fetch_execute (trace_42 ! 11) = Some (Ok (trace_42 ! 12))"
  by code_simp+

lemma final_42:
  "\<not> running (trace_42 ! 12) \<and> get_reg (trace_42 ! 12) ''$v0'' = Inr 42 \<and> stdout (trace_42 ! 12) = []"
  by code_simp

lemma run_42: "run loaded_42 = Stopped (trace_42 ! 12) 12"
proof -
  have m: "(0::nat) < max_iter" "(1::nat) < max_iter" "(2::nat) < max_iter" "(3::nat) < max_iter"
    "(4::nat) < max_iter" "(5::nat) < max_iter" "(6::nat) < max_iter" "(7::nat) < max_iter"
    "(8::nat) < max_iter" "(9::nat) < max_iter" "(10::nat) < max_iter" "(11::nat) < max_iter"
    by (simp_all add: max_iter_def)
  have "run loaded_42 = run_loop (trace_42 ! 0) 0"
    using start_42 by (simp add: run_def)
  also have "\<dots> = run_loop (trace_42 ! 1) 1"
    by (rule run_loop_fetch_execute [OF trace_42_steps(1) m(1)]) simp
  also have "\<dots> = run_loop (trace_42 ! 2) 2"
    by (rule run_loop_fetch_execute [OF trace_42_steps(2) m(2)]) simp
  also have "\<dots> = run_loop (trace_42 ! 3) 3"
    by (rule run_loop_fetch_execute [OF trace_42_steps(3) m(3)]) simp
  also have "\<dots> = run_loop (trace_42 ! 4) 4"
    by (rule run_loop_fetch_execute [OF trace_42_steps(4) m(4)]) simp
  also have "\<dots> = run_loop (trace_42 ! 5) 5"
    by (rule run_loop_fetch_execute [OF trace_42_steps(5) m(5)]) simp
  also have "\<dots> = run_loop (trace_42 ! 6) 6"
    by (rule run_loop_fetch_execute [OF trace_42_steps(6) m(6)]) simp
  also have "\<dots> = run_loop (trace_42 ! 7) 7"
    by (rule run_loop_fetch_execute [OF trace_42_steps(7) m(7)]) simp
  also have "\<dots> = run_loop (trace_42 ! 8) 8"
    by (rule run_loop_fetch_execute [OF trace_42_steps(8) m(8)]) simp
  also have "\<dots> = run_loop (trace_42 ! 9) 9"
    by (rule run_loop_fetch_execute [OF trace_42_steps(9) m(9)]) simp
  also have "\<dots> = run_loop (trace_42 ! 10) 10"
    by (rule run_loop_fetch_execute [OF trace_42_steps(10) m(10)]) simp
  also have "\<dots> = run_loop (trace_42 ! 11) 11"
    by (rule run_loop_fetch_execute [OF trace_42_steps(11) m(11)]) simp
  also have "\<dots> = run_loop (trace_42 ! 12) 12"
    by (rule run_loop_fetch_execute [OF trace_42_steps(12) m(12)]) simp
  also have "\<dots> = Stopped (trace_42 ! 12) 12"
    using final_42 by (intro run_loop_not_running) simp
  finally show ?thesis .
qed

text \<open>
  C3. The program \<^verbatim>\<open>int main(){ return 42; }\<close> goes through the lexer, the parser (4 units
  of fuel are enough) and the code generator; the simulator loads the assembly text that
  comes out and runs it from its initial state. The run stops after 12 instructions at the
  \<^verbatim>\<open>jr $ra\<close> of the epilogue, with 42 in \<^verbatim>\<open>$v0\<close> and nothing printed.
\<close>

theorem return_42_end_to_end:
  "\<exists>asm s n. toycc 4 ''int main(){ return 42; }'' = Some (Inr asm)
     \<and> simulate asm = Stopped s n \<and> get_reg s ''$v0'' = Inr 42 \<and> stdout s = [] \<and> \<not> running s"
proof -
  have "simulate asm_42 = Stopped (trace_42 ! 12) 12"
    by (simp add: simulate_def load_42 run_42)
  then show ?thesis
    using toycc_42 final_42 unfolding program_42_def by blast
qed


section \<open>Division\<close>

text \<open>
  What \<^verbatim>\<open>div\<close> does for two operands that name registers. The divisor is tested before
  anything is written, so the state at the raise is the state before the instruction; with
  a divisor other than 0 the Python operators \<^verbatim>\<open>//\<close> and \<^verbatim>\<open>%\<close> are applied to the two values
  exactly as \<open>get_reg\<close> returns them, which are the unsigned readings of the registers.
\<close>

lemma decode_div:
  "split_ws (strip ''div $t0, $t1'') = [''div'', ''$t0,'', ''$t1''] \<and>
   operands_of [''$t0,'', ''$t1''] = [''$t0'', ''$t1'']"
  by code_simp

lemma execute_div_t0_t1: "execute ''div $t0, $t1'' s = exec_op ''div'' [''$t0'', ''$t1''] s"
  using decode_div by (simp add: execute_def)

lemma div_zero_divisor:
  assumes "dict_has reg_names r1" and "dict_has reg_names r2" and "length (regs s) = 32"
  shows "((\<exists>s'. exec_op ''div'' (r1 # r2 # rest) s = Raise DivisionByZero s') = (get_reg s r2 = Inr 0))
    \<and> (get_reg s r2 = Inr 0 \<longrightarrow> exec_op ''div'' (r1 # r2 # rest) s = Raise DivisionByZero s)"
proof -
  from get_reg_known [OF assms(1,3)] obtain v1 where v1: "get_reg s r1 = Inr v1" ..
  from get_reg_known [OF assms(2,3)] obtain v2 where v2: "get_reg s r2 = Inr v2" ..
  show ?thesis
    using exec_op_div [OF v1 v2, of rest] v2 by auto
qed

lemma div_unsigned_operands:
  assumes "get_reg s r1 = Inr v1" and "get_reg s r2 = Inr v2" and "v2 \<noteq> 0"
  shows "exec_op ''div'' (r1 # r2 # rest) s =
           Ok (s\<lparr>lo := Some (v1 div v2), hi := Some (v1 mod v2), pc := pc s + 1\<rparr>)"
  using exec_op_div [OF assms(1,2), of rest] assms(3) by simp

lemma div_zero_stops_run:
  assumes "running s" and "n < max_iter" and "0 \<le> pc s" and "pc s < int (length (instructions s))"
    and "strip (instructions s ! nat (pc s)) = ''div $t0, $t1''"
    and "get_reg s ''$t1'' = Inr 0" and "length (regs s) = 32"
  shows "run_loop s n = Crashed DivisionByZero s"
proof -
  have nonempty: "''div $t0, $t1'' \<noteq> []" "\<not> startswith ''div $t0, $t1'' ''#''"
    by (simp_all add: startswith_def)
  have "dict_has reg_names ''$t0''" by (simp add: dict_has_def reg_names_def)
  from get_reg_known [OF this assms(7)] obtain a where a: "get_reg s ''$t0'' = Inr a" ..
  have "execute ''div $t0, $t1'' s = Raise DivisionByZero s"
    using exec_op_div [OF a assms(6), of "[]"] by (simp add: execute_div_t0_t1)
  then show ?thesis
    using run_loop_fetch [OF assms(1-5) nonempty] by simp
qed

subsection \<open>A negative dividend\<close>

text \<open>Some turns of the run loop in a row, each executing an instruction that does not raise.\<close>

fun run_steps :: "nat \<Rightarrow> sim \<Rightarrow> sim option" where
  "run_steps 0 s = Some s"
| "run_steps (Suc k) s =
     (case fetch_execute s of Some (Ok s1) \<Rightarrow> run_steps k s1 | _ \<Rightarrow> None)"

lemma run_loop_steps:
  "run_steps k s = Some s' \<Longrightarrow> n + k \<le> max_iter \<Longrightarrow> run_loop s n = run_loop s' (n + k)"
proof (induction k arbitrary: s n)
  case 0
  then show ?case by simp
next
  case (Suc k)
  from Suc.prems(1) obtain s1 where f: "fetch_execute s = Some (Ok s1)"
    and r: "run_steps k s1 = Some s'"
    by (auto split: option.splits outcome.splits)
  have "run_loop s n = run_loop s1 (n + 1)"
    using Suc.prems(2) by (intro run_loop_fetch_execute [OF f]) simp_all
  also have "\<dots> = run_loop s' (n + 1 + k)"
    using Suc.prems(2) by (intro Suc.IH [OF r]) simp
  finally show ?case by simp
qed

definition program_div :: string where
  "program_div = ''int main(){ return (0 - 7) / 2; }''"

definition asm_div :: string where
  "asm_div = join (CHR 0x0A)
     [''.data'', [], ''.text'', ''.globl main'', [], ''main:'',
      ''    addi $sp, $sp, -8'', ''    sw $ra, 4($sp)'', ''    sw $fp, 0($sp)'',
      ''    move $fp, $sp'',
      ''    li $t0, 0'', ''    addi $sp, $sp, -4'', ''    sw $t0, 0($sp)'', ''    li $t0, 7'',
      ''    move $t1, $t0'', ''    lw $t0, 0($sp)'', ''    addi $sp, $sp, 4'',
      ''    sub $t0, $t0, $t1'',
      ''    addi $sp, $sp, -4'', ''    sw $t0, 0($sp)'', ''    li $t0, 2'',
      ''    move $t1, $t0'', ''    lw $t0, 0($sp)'', ''    addi $sp, $sp, 4'',
      ''    div $t0, $t1'', ''    mflo $t0'',
      ''    move $v0, $t0'', ''    j main_exit'',
      ''main_exit:'', ''    move $sp, $fp'', ''    lw $fp, 0($sp)'', ''    lw $ra, 4($sp)'',
      ''    addi $sp, $sp, 8'', ''    jr $ra'', [], [],
      ''print_int:'', ''    li $v0, 1'', ''    syscall'', ''    jr $ra'', [],
      ''print_str:'', ''    li $v0, 4'', ''    syscall'', ''    jr $ra'']"

definition loaded_div :: sim where
  "loaded_div = MIPSInterpreter\<lparr>regs := (replicate 32 0)[29 := 0x7ffffffc],
     labels := [(''main'', 0), (''main_exit'', 22), (''print_int'', 27), (''print_str'', 30)],
     instructions :=
       [''addi $sp, $sp, -8'', ''sw $ra, 4($sp)'', ''sw $fp, 0($sp)'', ''move $fp, $sp'',
        ''li $t0, 0'', ''addi $sp, $sp, -4'', ''sw $t0, 0($sp)'', ''li $t0, 7'',
        ''move $t1, $t0'', ''lw $t0, 0($sp)'', ''addi $sp, $sp, 4'', ''sub $t0, $t0, $t1'',
        ''addi $sp, $sp, -4'', ''sw $t0, 0($sp)'', ''li $t0, 2'', ''move $t1, $t0'',
        ''lw $t0, 0($sp)'', ''addi $sp, $sp, 4'', ''div $t0, $t1'', ''mflo $t0'',
        ''move $v0, $t0'', ''j main_exit'', ''move $sp, $fp'', ''lw $fp, 0($sp)'',
        ''lw $ra, 4($sp)'', ''addi $sp, $sp, 8'', ''jr $ra'', ''li $v0, 1'', ''syscall'',
        ''jr $ra'', ''li $v0, 4'', ''syscall'', ''jr $ra'']\<rparr>"

text \<open>
  A state with \<open>0xFFFFFFF9\<close>, the 32-bit pattern of -7, in \<^verbatim>\<open>$t0\<close> and 2 in \<^verbatim>\<open>$t1\<close>.
\<close>

definition minus7_sim :: sim where
  "minus7_sim = MIPSInterpreter\<lparr>regs := (replicate 32 0)[8 := 0xFFFFFFF9, 9 := 2]\<rparr>"

lemma toycc_div: "toycc 10 program_div = Some (Inr asm_div)"
  by code_simp

lemma load_div: "load_program asm_div MIPSInterpreter = Inr loaded_div"
  by code_simp

lemma start_div:
  "dict_has (labels loaded_div) ''main'' \<and> dict_item (labels loaded_div) ''main'' = Inr 0"
  by code_simp

lemma steps_div:
  "(case run_steps 27 (loaded_div\<lparr>pc := int 0\<rparr>) of
      None \<Rightarrow> False
    | Some s \<Rightarrow> \<not> running s \<and> get_reg s ''$v0'' = Inr 2147483644
        \<and> lo s = Some 2147483644 \<and> hi s = Some 1 \<and> stdout s = [])"
  by code_simp

lemma simulate_div:
  "\<exists>s. simulate asm_div = Stopped s 27 \<and> get_reg s ''$v0'' = Inr 2147483644
     \<and> lo s = Some 2147483644 \<and> hi s = Some 1"
proof -
  from steps_div obtain s where s: "run_steps 27 (loaded_div\<lparr>pc := int 0\<rparr>) = Some s"
    and f: "\<not> running s" "get_reg s ''$v0'' = Inr 2147483644"
      "lo s = Some 2147483644" "hi s = Some 1"
    by (auto split: option.splits)
  have "simulate asm_div = run_loop (loaded_div\<lparr>pc := int 0\<rparr>) 0"
    using start_div by (simp add: simulate_def load_div run_def)
  also have "\<dots> = run_loop s (0 + 27)"
    by (rule run_loop_steps [OF s]) (simp add: max_iter_def)
  also have "\<dots> = Stopped s (0 + 27)"
    by (rule run_loop_not_running [OF f(1)])
  finally show ?thesis using f by simp
qed

lemma div_minus7:
  "exec_op ''div'' [''$t0'', ''$t1''] minus7_sim
     = Ok (minus7_sim\<lparr>lo := Some 2147483644, hi := Some 1, pc := 1\<rparr>)
   \<and> get_reg minus7_sim ''$t0'' = Inr 0xFFFFFFF9 \<and> get_reg minus7_sim ''$t1'' = Inr 2
   \<and> to_signed 0xFFFFFFF9 = - 7 \<and> to_signed 2 = 2"
  by code_simp

text \<open>
  C4. The quotient of a negative dividend. A \<^verbatim>\<open>div\<close> whose divisor is not 0 completes, but
  \<open>lo\<close> and \<open>hi\<close> are not the quotient and the remainder of the two numbers the registers
  stand for: the operands are divided as unsigned values, whereas \<^verbatim>\<open>slt\<close> and \<^verbatim>\<open>print_int\<close>
  read the same registers as signed 32-bit numbers. With -7 in \<^verbatim>\<open>$t0\<close> (the pattern
  \<open>0xFFFFFFF9\<close>) and 2 in \<^verbatim>\<open>$t1\<close>, \<^verbatim>\<open>div $t0, $t1\<close> leaves 2147483644 in \<open>lo\<close> and 1 in \<open>hi\<close>,
  which is the quotient of -7 by 2 neither rounded towards zero (-3, remainder -1) nor
  rounded down (-4, remainder 1). The compiled program
  \<^verbatim>\<open>int main(){ return (0 - 7) / 2; }\<close> reaches that instruction, and its run stops after 27
  instructions with 2147483644 in \<^verbatim>\<open>$v0\<close>.
\<close>

theorem div_negative_dividend:
  "exec_op ''div'' [''$t0'', ''$t1''] minus7_sim
     = Ok (minus7_sim\<lparr>lo := Some 2147483644, hi := Some 1, pc := 1\<rparr>)
   \<and> get_reg minus7_sim ''$t0'' = Inr 0xFFFFFFF9 \<and> to_signed 0xFFFFFFF9 = - 7
   \<and> get_reg minus7_sim ''$t1'' = Inr 2 \<and> to_signed 2 = 2
   \<and> (\<exists>asm s. toycc 10 ''int main(){ return (0 - 7) / 2; }'' = Some (Inr asm)
         \<and> simulate asm = Stopped s 27 \<and> get_reg s ''$v0'' = Inr 2147483644
         \<and> lo s = Some 2147483644 \<and> hi s = Some 1)"
proof -
  have "\<exists>asm s. toycc 10 ''int main(){ return (0 - 7) / 2; }'' = Some (Inr asm)
         \<and> simulate asm = Stopped s 27 \<and> get_reg s ''$v0'' = Inr 2147483644
         \<and> lo s = Some 2147483644 \<and> hi s = Some 1"
    using toycc_div simulate_div unfolding program_div_def by blast
  then show ?thesis using div_minus7 by simp
qed
section \<open>The lexer on an unterminated string literal\<close>







section \<open>The target of a return\<close>

text \<open>
  C2 on the code. A \<^verbatim>\<open>return\<close> is generated as a jump to the label \<^verbatim>\<open>main_exit\<close>, whatever
  function it stands in: the last line that \<^verbatim>\<open>gen_stmt\<close> emits for it is
  \<^verbatim>\<open>j main_exit\<close>. In the program \<^verbatim>\<open>int foo(){ return 1; } int main(){ return 0; }\<close> the
  return of \<^verbatim>\<open>foo\<close> therefore jumps to the epilogue of \<^verbatim>\<open>main\<close>, and the label \<^verbatim>\<open>foo_exit\<close>
  that \<^verbatim>\<open>gen_function\<close> emits at the end of \<^verbatim>\<open>foo\<close> is the target of no jump.
\<close>

theorem return_jumps_to_main_exit:
  "toycc 4 ''int foo(){ return 1; } int main(){ return 0; }'' =
     Some (Inr (join (CHR 0x0A)
       [''.data'', [], ''.text'', ''.globl main'', [],
        ''foo:'', ''    addi $sp, $sp, -8'', ''    sw $ra, 4($sp)'', ''    sw $fp, 0($sp)'',
        ''    move $fp, $sp'', ''    li $t0, 1'', ''    move $v0, $t0'', ''    j main_exit'',
        ''foo_exit:'', ''    move $sp, $fp'', ''    lw $fp, 0($sp)'', ''    lw $ra, 4($sp)'',
        ''    addi $sp, $sp, 8'', ''    jr $ra'', [],
        ''main:'', ''    addi $sp, $sp, -8'', ''    sw $ra, 4($sp)'', ''    sw $fp, 0($sp)'',
        ''    move $fp, $sp'', ''    li $t0, 0'', ''    move $v0, $t0'', ''    j main_exit'',
        ''main_exit:'', ''    move $sp, $fp'', ''    lw $fp, 0($sp)'', ''    lw $ra, 4($sp)'',
        ''    addi $sp, $sp, 8'', ''    jr $ra'', [], [],
        ''print_int:'', ''    li $v0, 1'', ''    syscall'', ''    jr $ra'', [],
        ''print_str:'', ''    li $v0, 4'', ''    syscall'', ''    jr $ra'']))"
  by code_simp

lemma return_always_main_exit:
  "gen_stmt (Return v) cg = Inr cg' \<Longrightarrow> last (output_buf cg') = ''    j main_exit''"
  by (auto simp: emit_def split: option.splits sum.splits)

section \<open>The labels of the control constructs\<close>

text \<open>The number of \<^verbatim>\<open>if\<close>, \<^verbatim>\<open>while\<close> and \<^verbatim>\<open>for\<close> statements in a tree, at any depth.\<close>

fun ctl_count :: "stmt \<Rightarrow> nat" and ctl_counts :: "stmt list \<Rightarrow> nat" where
  "ctl_count (Declaration name init) = 0"
| "ctl_count (ExprStmt e) = 0"
| "ctl_count (If condition then_body else_body) =
     1 + ctl_counts then_body + (case else_body of None \<Rightarrow> 0 | Some ss \<Rightarrow> ctl_counts ss)"
| "ctl_count (While condition body) = 1 + ctl_counts body"
| "ctl_count (For init condition update body) = 1 + ctl_counts body"
| "ctl_count (Return v) = 0"
| "ctl_counts [] = 0"
| "ctl_counts (s # ss) = ctl_count s + ctl_counts ss"

definition program_ctl_count :: "func list \<Rightarrow> nat" where
  "program_ctl_count fs = sum_list (map (\<lambda>f. ctl_counts (fbody f)) fs)"

text \<open>A line of the output that defines a label: it ends with a colon.\<close>

definition is_label_line :: "string \<Rightarrow> bool" where
  "is_label_line l = (l \<noteq> [] \<and> last l = CHR '':'')"

text \<open>
  The label lines a statement gives rise to when the label counter stands at \<open>k\<close>, in the
  order of their emission.
\<close>

fun stmt_labels :: "nat \<Rightarrow> stmt \<Rightarrow> string list"
  and stmts_labels :: "nat \<Rightarrow> stmt list \<Rightarrow> string list"
where
  "stmt_labels k (Declaration name init) = []"
| "stmt_labels k (ExprStmt e) = []"
| "stmt_labels k (If condition then_body else_body) =
     stmts_labels (k + 2) then_body @ [''else'' @ str_nat k @ '':'']
       @ (case else_body of None \<Rightarrow> [] | Some ss \<Rightarrow> stmts_labels (k + 2 + 2 * ctl_counts then_body) ss)
       @ [''endif'' @ str_nat (k + 1) @ '':'']"
| "stmt_labels k (While condition body) =
     [''while'' @ str_nat k @ '':''] @ stmts_labels (k + 2) body @ [''endwhile'' @ str_nat (k + 1) @ '':'']"
| "stmt_labels k (For init condition update body) =
     [''for'' @ str_nat k @ '':''] @ stmts_labels (k + 2) body @ [''endfor'' @ str_nat (k + 1) @ '':'']"
| "stmt_labels k (Return v) = []"
| "stmts_labels k [] = []"
| "stmts_labels k (s # ss) = stmt_labels k s @ stmts_labels (k + 2 * ctl_count s) ss"

fun funcs_labels :: "nat \<Rightarrow> func list \<Rightarrow> string list" where
  "funcs_labels k [] = []"
| "funcs_labels k (f # fs) =
     stmts_labels k (fbody f) @ funcs_labels (k + 2 * ctl_counts (fbody f)) fs"

subsection \<open>Decimal numerals\<close>

lemma code_of_digit_char: "d < 10 \<Longrightarrow> code_of (digit_char d) = 48 + d"
  by (simp add: code_of_def digit_char_def)

lemma isdecimal_digit_char: "d < 10 \<Longrightarrow> isdecimal (digit_char d)"
  by (simp add: isdecimal_def code_of_digit_char)

lemma digit_char_not_colon: "d < 10 \<Longrightarrow> digit_char d \<noteq> CHR '':''"
proof
  assume "d < 10" and "digit_char d = CHR '':''"
  then have "code_of (digit_char d) = code_of (CHR '':'')" by simp
  then show False using \<open>d < 10\<close> by (simp add: code_of_digit_char) (simp add: code_of_def)
qed

lemma str_nat_nonempty: "str_nat n \<noteq> []"
  by (subst str_nat.simps) simp

lemma last_str_nat: "last (str_nat n) = digit_char (n mod 10)"
  by (subst str_nat.simps) simp

lemma str_nat_decimal: "list_all isdecimal (str_nat n)"
proof (induction n rule: str_nat.induct)
  case (1 n)
  then show ?case
    by (subst str_nat.simps) (simp add: isdecimal_digit_char)
qed

lemma digits_value_snoc:
  "digits_value (ds @ [c]) = digits_value ds * 10 + (code_of c - 48)"
  by (simp add: digits_value_def)

lemma digits_value_str_nat: "digits_value (str_nat n) = n"
proof (induction n rule: str_nat.induct)
  case (1 n)
  show ?case
  proof (cases "n < 10")
    case True
    then show ?thesis
      by (subst str_nat.simps) (simp add: digits_value_def code_of_digit_char)
  next
    case False
    then have "digits_value (str_nat (n div 10)) = n div 10" using 1 by simp
    then show ?thesis using False
      by (subst str_nat.simps) (simp add: digits_value_snoc code_of_digit_char)
  qed
qed

lemma last_str_int_not_colon: "last (str_int i) \<noteq> CHR '':''"
  by (simp add: str_int_def str_nat_nonempty last_str_nat digit_char_not_colon)

lemma str_int_nonempty: "str_int i \<noteq> []"
  by (simp add: str_int_def str_nat_nonempty)

text \<open>The number at the end of a label line \<^verbatim>\<open>prefix<number>:\<close>.\<close>

definition label_number :: "string \<Rightarrow> nat" where
  "label_number l = digits_value (rev (takeWhile isdecimal (rev (butlast l))))"

lemma takeWhile_run:
  "list_all P xs \<Longrightarrow> \<not> P a \<Longrightarrow> takeWhile P (xs @ a # ys) = xs"
  by (induction xs) simp_all

lemma label_number_eq:
  assumes "p \<noteq> []" and "\<not> isdecimal (last p)"
  shows "label_number (p @ str_nat n @ '':'') = n"
proof -
  have b: "butlast (p @ str_nat n @ '':'') = p @ str_nat n" by (simp add: butlast_append)
  obtain q where p: "p = q @ [last p]"
    using assms(1) by (metis append_butlast_last_id)
  have r: "rev (p @ str_nat n) = rev (str_nat n) @ last p # rev q"
    by (subst p) simp
  have "list_all isdecimal (rev (str_nat n))"
    using str_nat_decimal [of n] by (simp add: list_all_iff)
  then have "takeWhile isdecimal (rev (str_nat n) @ last p # rev q) = rev (str_nat n)"
    using assms(2) by (rule takeWhile_run)
  then have "takeWhile isdecimal (rev (p @ str_nat n)) = rev (str_nat n)"
    by (simp only: r)
  then show ?thesis
    by (simp only: label_number_def b rev_rev_ident digits_value_str_nat)
qed

lemma prefix_facts:
  "\<not> isdecimal (last ''else'')" "\<not> isdecimal (last ''endif'')" "\<not> isdecimal (last ''while'')"
  "\<not> isdecimal (last ''endwhile'')" "\<not> isdecimal (last ''for'')" "\<not> isdecimal (last ''endfor'')"
  by code_simp+

lemma label_numbers [simp]:
  "label_number (''else'' @ str_nat n @ '':'') = n"
  "label_number (''endif'' @ str_nat n @ '':'') = n"
  "label_number (''while'' @ str_nat n @ '':'') = n"
  "label_number (''endwhile'' @ str_nat n @ '':'') = n"
  "label_number (''for'' @ str_nat n @ '':'') = n"
  "label_number (''endfor'' @ str_nat n @ '':'') = n"
  using label_number_eq [of "''else''" n] label_number_eq [of "''endif''" n]
    label_number_eq [of "''while''" n] label_number_eq [of "''endwhile''" n]
    label_number_eq [of "''for''" n] label_number_eq [of "''endfor''" n] prefix_facts
  by simp_all

subsection \<open>The expected labels are pairwise distinct\<close>

lemma stmt_labels_numbers:
  "set (map label_number (stmt_labels k s)) \<subseteq> {k ..< k + 2 * ctl_count s}
     \<and> distinct (map label_number (stmt_labels k s))
     \<and> length (stmt_labels k s) = 2 * ctl_count s"
  "set (map label_number (stmts_labels k ss)) \<subseteq> {k ..< k + 2 * ctl_counts ss}
     \<and> distinct (map label_number (stmts_labels k ss))
     \<and> length (stmts_labels k ss) = 2 * ctl_counts ss"
proof (induction k s and k ss rule: stmt_labels_stmts_labels.induct)
  case (3 k condition then_body else_body)
  show ?case
  proof (cases else_body)
    case None
    then show ?thesis using 3(1) by (fastforce simp del: append.simps)
  next
    case (Some ss)
    then show ?thesis using 3(1) 3(2) [OF Some] by (fastforce simp del: append.simps)
  qed
next
  case (4 k condition body)
  then show ?case by (fastforce simp del: append.simps)
next
  case (5 k init condition update body)
  then show ?case by (fastforce simp del: append.simps)
next
  case (8 k s ss)
  then show ?case by fastforce
qed simp_all

lemma funcs_labels_numbers:
  "set (map label_number (funcs_labels k fs)) \<subseteq> {k ..< k + 2 * program_ctl_count fs}
     \<and> distinct (map label_number (funcs_labels k fs))
     \<and> length (funcs_labels k fs) = 2 * program_ctl_count fs"
proof (induction fs arbitrary: k)
  case Nil
  then show ?case by (simp add: program_ctl_count_def)
next
  case (Cons f fs)
  have pc: "program_ctl_count (f # fs) = ctl_counts (fbody f) + program_ctl_count fs"
    by (simp add: program_ctl_count_def)
  show ?case
    using Cons [of "k + 2 * ctl_counts (fbody f)"] stmt_labels_numbers(2) [of k "fbody f"]
    unfolding pc by fastforce
qed


subsection \<open>What the generator appends\<close>

text \<open>
  \<open>appended cg cg' ls n\<close>: from \<open>cg\<close> to \<open>cg'\<close> the output grew by some lines whose label
  lines are \<open>ls\<close>, and the label counter grew by \<open>n\<close>.
\<close>

definition appended :: "codegen \<Rightarrow> codegen \<Rightarrow> string list \<Rightarrow> nat \<Rightarrow> bool" where
  "appended cg cg' ls n =
     ((\<exists>new. output_buf cg' = output_buf cg @ new \<and> filter is_label_line new = ls)
      \<and> label_count cg' = label_count cg + n)"

lemma appended_refl: "appended cg cg [] 0"
  by (simp add: appended_def)

lemma appended_trans:
  "appended cg cg1 ls1 n1 \<Longrightarrow> appended cg1 cg2 ls2 n2 \<Longrightarrow> appended cg cg2 (ls1 @ ls2) (n1 + n2)"
  by (auto simp: appended_def)

lemma appended_trans0:
  "appended cg cg1 [] 0 \<Longrightarrow> appended cg1 cg2 ls n \<Longrightarrow> appended cg cg2 ls n"
  using appended_trans [of cg cg1 "[]" 0 cg2 ls n] by simp

lemma appended_count: "appended cg cg' ls n \<Longrightarrow> label_count cg' = label_count cg + n"
  by (simp add: appended_def)

lemma output_buf_emits: "output_buf (emits ls cg) = output_buf cg @ ls"
  unfolding emits_def by (induction ls arbitrary: cg) (simp_all add: emit_def)

lemma label_count_emits: "label_count (emits ls cg) = label_count cg"
  unfolding emits_def by (induction ls arbitrary: cg) (simp_all add: emit_def)

lemma appended_emits: "filter is_label_line ls = ks \<Longrightarrow> appended cg (emits ls cg) ks 0"
  by (simp add: appended_def output_buf_emits label_count_emits)

lemma appended_emit: "filter is_label_line [l] = ks \<Longrightarrow> appended cg (emit l cg) ks 0"
  by (auto simp: appended_def emit_def)

lemma appended_add_string: "add_string s cg = (l, cg') \<Longrightarrow> appended cg cg' [] 0"
  by (auto simp: add_string_def appended_def Let_def)

text \<open>Which lines end with a colon, read off character by character.\<close>

lemma is_label_line_Cons:
  "is_label_line (c # l) = (if l = [] then c = CHR '':'' else is_label_line l)"
  by (simp add: is_label_line_def)

lemma is_label_line_ends:
  "\<not> is_label_line []"
  "\<not> is_label_line (str_int v)"
  "\<not> is_label_line (str_int v @ ''($fp)'')"
  "\<not> is_label_line (str_nat n)"
  "is_label_line (str_nat n @ '':'')"
  by (simp_all add: is_label_line_def last_str_int_not_colon last_str_nat digit_char_not_colon)

lemmas label_line_simps = is_label_line_Cons is_label_line_ends str_nat_nonempty str_int_nonempty

lemma plain_binop_lines: "filter is_label_line (binop_lines op) = []"
  by (simp add: binop_lines_def label_line_simps)

lemma gen_expr_appended: "gen_expr e cg = Inr cg' \<Longrightarrow> appended cg cg' [] 0"
proof (induction e cg arbitrary: cg' rule: gen_expr.induct)
  case (1 v cg)
  then have "cg' = emit (''    li $t0, '' @ str_int v) cg" by auto
  then show ?case by (simp add: appended_emit label_line_simps)
next
  case (2 s cg)
  obtain l cg1 where a: "add_string s cg = (l, cg1)" by (cases "add_string s cg")
  then have l: "l = ''str'' @ str_nat (string_count cg)" by (auto simp: add_string_def Let_def)
  have res: "cg' = emit (''    la $t0, '' @ l) cg1" using 2 a by auto
  have "appended cg1 cg' [] 0"
    unfolding res l by (rule appended_emit) (simp add: label_line_simps)
  then show ?case
    using appended_add_string [OF a] appended_trans0 by blast
next
  case (3 name cg)
  then obtain offset where "cg' = emit (''    lw $t0, '' @ str_int offset @ ''($fp)'') cg"
    by (auto split: sum.splits)
  then show ?case by (simp add: appended_emit label_line_simps)
next
  case (4 left right cg)
  from 4(2) obtain cg1 where r: "gen_expr right cg = Inr cg1" by (auto split: sum.splits)
  have a1: "appended cg cg1 [] 0" by (rule 4(1) [OF r])
  have "cg' = cg1 \<or> (\<exists>offset. cg' = emit (''    sw $t0, '' @ str_int offset @ ''($fp)'') cg1)"
    using 4(2) r by (auto split: sum.splits expr.splits)
  then have "appended cg1 cg' [] 0"
    by (auto simp: appended_refl appended_emit label_line_simps)
  then show ?case using a1 appended_trans0 by blast
next
  case (5 op left right cg)
  from 5(3) obtain cg1 where l: "gen_expr left cg = Inr cg1" by (auto split: sum.splits)
  let ?cg1' = "emits [''    addi $sp, $sp, -4'', ''    sw $t0, 0($sp)''] cg1"
  from 5(3) l obtain cg2 where r: "gen_expr right ?cg1' = Inr cg2" by (auto split: sum.splits)
  let ?cg3 = "emits [''    move $t1, $t0'', ''    lw $t0, 0($sp)'', ''    addi $sp, $sp, 4''] cg2"
  have res: "cg' = emits (binop_lines op) ?cg3" using 5(3) l r by simp
  have a1: "appended cg cg1 [] 0" by (rule 5(1) [OF l])
  have a2: "appended cg1 ?cg1' [] 0"
    by (rule appended_emits) (simp add: label_line_simps)
  have a3: "appended ?cg1' cg2 [] 0" by (rule 5(2) [OF l r])
  have a4: "appended cg2 ?cg3 [] 0"
    by (rule appended_emits) (simp add: label_line_simps)
  have a5: "appended ?cg3 cg' [] 0"
    unfolding res by (rule appended_emits) (rule plain_binop_lines)
  show ?case
    using a1 a2 a3 a4 a5 appended_trans0 by blast
next
  case (6 op operand cg)
  then obtain offset step where
    "cg' = emits [''    lw $t0, '' @ str_int offset @ ''($fp)'', step,
               ''    sw $t0, '' @ str_int offset @ ''($fp)''] cg"
    and "step = ''    addi $t0, $t0, 1'' \<or> step = ''    addi $t0, $t0, -1''"
    by (auto split: sum.splits)
  then show ?case
    by (auto intro!: appended_emits simp: label_line_simps)
next
  case (7 op operand cg)
  then obtain offset step where
    "cg' = emits [''    lw $t0, '' @ str_int offset @ ''($fp)'', ''    move $t2, $t0'', step,
               ''    sw $t0, '' @ str_int offset @ ''($fp)'', ''    move $t0, $t2''] cg"
    and "step = ''    addi $t0, $t0, 1'' \<or> step = ''    addi $t0, $t0, -1''"
    by (auto split: sum.splits)
  then show ?case
    by (auto intro!: appended_emits simp: label_line_simps)
next
  case (8 name cg)
  then show ?case using appended_refl by (auto split: if_splits)
next
  case (9 name a args cg)
  show ?case
  proof (cases "name = ''print_int'' \<or> name = ''print_str''")
    case False
    then show ?thesis using 9(3) appended_refl by auto
  next
    case True
    then obtain cg1 where g: "gen_expr a cg = Inr cg1"
      and res: "cg' = emits [''    move $a0, $t0'', ''    jal '' @ name] cg1"
      using 9(3) by (auto split: sum.splits if_splits)
    have a1: "appended cg cg1 [] 0"
      using True 9(1) [OF _ g] 9(2) [OF _ _ g] by auto
    have "appended cg1 cg' [] 0"
      unfolding res using True by (auto intro!: appended_emits simp: label_line_simps)
    then show ?thesis using a1 appended_trans0 by blast
  qed
qed

lemma gen_declaration_appended: "gen_declaration name init cg = Inr cg' \<Longrightarrow> appended cg cg' [] 0"
proof -
  assume g: "gen_declaration name init cg = Inr cg'"
  let ?cg1 = "emit ''    addi $sp, $sp, -4'' cg"
  let ?cg2 = "?cg1\<lparr>stack_offset := stack_offset ?cg1 + 4\<rparr>"
  let ?cg3 = "?cg2\<lparr>vars := AList.update name (- stack_offset ?cg2) (vars ?cg2)\<rparr>"
  have a1: "appended cg ?cg3 [] 0"
    by (simp add: appended_def emit_def label_line_simps)
  show ?thesis
  proof (cases init)
    case None
    then have "cg' = ?cg3" using g by (simp add: gen_declaration_def Let_def)
    then show ?thesis using a1 by simp
  next
    case (Some e)
    then obtain cg4 where e: "gen_expr e ?cg3 = Inr cg4"
      using g by (auto simp: gen_declaration_def Let_def split: sum.splits)
    then obtain offset where res: "cg' = emit (''    sw $t0, '' @ str_int offset @ ''($fp)'') cg4"
      using g Some by (auto simp: gen_declaration_def Let_def split: sum.splits)
    have "appended cg4 cg' [] 0"
      unfolding res by (rule appended_emit) (simp add: label_line_simps)
    then show ?thesis
      using a1 gen_expr_appended [OF e] appended_trans0 by blast
  qed
qed

subsection \<open>Statements\<close>

text \<open>What a successful \<open>gen_stmt\<close> went through, for each control construct.\<close>

lemma gen_stmts_else: "(if ss \<noteq> [] then gen_stmts ss cg else Inr cg) = gen_stmts ss cg"
  by (cases ss) simp_all

lemma gen_stmt_If:
  assumes "gen_stmt (If c t e) cg = Inr cg'"
  shows "\<exists>cg3 cg4 cg5.
     gen_expr c (cg\<lparr>label_count := label_count cg + 2\<rparr>) = Inr cg3
     \<and> gen_stmts t (emit (''    beq $t0, $zero, '' @ ''else'' @ str_nat (label_count cg)) cg3) = Inr cg4
     \<and> (case e of None \<Rightarrow> Inr (emits [''    j '' @ ''endif'' @ str_nat (label_count cg + 1),
                                       ''else'' @ str_nat (label_count cg) @ '':''] cg4)
         | Some ss \<Rightarrow> gen_stmts ss (emits [''    j '' @ ''endif'' @ str_nat (label_count cg + 1),
                                       ''else'' @ str_nat (label_count cg) @ '':''] cg4)) = Inr cg5
     \<and> cg' = emit (''endif'' @ str_nat (label_count cg + 1) @ '':'') cg5"
  using assms
  by (auto simp: new_label_def gen_stmts_else split: sum.splits option.splits)

lemma gen_stmt_While:
  assumes "gen_stmt (While c b) cg = Inr cg'"
  shows "\<exists>cg3 cg4.
     gen_expr c (emit (''while'' @ str_nat (label_count cg) @ '':'')
                   (cg\<lparr>label_count := label_count cg + 2\<rparr>)) = Inr cg3
     \<and> gen_stmts b (emit (''    beq $t0, $zero, '' @ ''endwhile'' @ str_nat (label_count cg + 1)) cg3)
         = Inr cg4
     \<and> cg' = emits [''    j '' @ ''while'' @ str_nat (label_count cg),
                     ''endwhile'' @ str_nat (label_count cg + 1) @ '':''] cg4"
  using assms
  by (auto simp: new_label_def split: sum.splits)

lemma gen_stmt_For:
  assumes "gen_stmt (For i c u b) cg = Inr cg'"
  shows "\<exists>cg3 cg5 cg6 cg7.
     (case i of None \<Rightarrow> cg3 = cg\<lparr>label_count := label_count cg + 2\<rparr>
      | Some (InitDeclaration name e) \<Rightarrow>
          gen_declaration name e (cg\<lparr>label_count := label_count cg + 2\<rparr>) = Inr cg3
      | Some (InitExpression e) \<Rightarrow>
          gen_expr e (cg\<lparr>label_count := label_count cg + 2\<rparr>) = Inr cg3)
     \<and> (case c of None \<Rightarrow> cg5 = emit (''for'' @ str_nat (label_count cg) @ '':'') cg3
        | Some c' \<Rightarrow>
           (\<exists>cg4. gen_expr c' (emit (''for'' @ str_nat (label_count cg) @ '':'') cg3) = Inr cg4
              \<and> cg5 = emit (''    beq $t0, $zero, '' @ ''endfor'' @ str_nat (label_count cg + 1)) cg4))
     \<and> gen_stmts b cg5 = Inr cg6
     \<and> (case u of None \<Rightarrow> cg7 = cg6 | Some u' \<Rightarrow> gen_expr u' cg6 = Inr cg7)
     \<and> cg' = emits [''    j '' @ ''for'' @ str_nat (label_count cg),
                     ''endfor'' @ str_nat (label_count cg + 1) @ '':''] cg7"
proof (cases i)
  case None
  then show ?thesis
    using assms by (cases c; cases u) (auto simp: new_label_def split: sum.split_asm)
next
  case (Some x)
  then show ?thesis
    using assms by (cases x; cases c; cases u) (auto simp: new_label_def split: sum.split_asm)
qed

lemma appended_two_labels: "appended cg (cg\<lparr>label_count := label_count cg + 2\<rparr>) [] 2"
  by (simp add: appended_def)

lemma gen_stmts_from_elems:
  assumes "gen_stmts ss cg = Inr cg'"
    and "\<And>s cg cg'. s \<in> set ss \<Longrightarrow> gen_stmt s cg = Inr cg'
           \<Longrightarrow> appended cg cg' (stmt_labels (label_count cg) s) (2 * ctl_count s)"
  shows "appended cg cg' (stmts_labels (label_count cg) ss) (2 * ctl_counts ss)"
  using assms
proof (induction ss arbitrary: cg)
  case Nil
  then show ?case by (simp add: appended_refl)
next
  case (Cons s ss)
  from Cons.prems(1) obtain cg1 where g1: "gen_stmt s cg = Inr cg1"
    and g2: "gen_stmts ss cg1 = Inr cg'"
    by (auto split: sum.splits)
  have a1: "appended cg cg1 (stmt_labels (label_count cg) s) (2 * ctl_count s)"
    by (rule Cons.prems(2) [OF _ g1]) simp
  have lc: "label_count cg1 = label_count cg + 2 * ctl_count s"
    by (rule appended_count [OF a1])
  have a2: "appended cg1 cg' (stmts_labels (label_count cg1) ss) (2 * ctl_counts ss)"
  proof (rule Cons.IH [OF g2])
    fix x c c'
    assume "x \<in> set ss" and "gen_stmt x c = Inr c'"
    then show "appended c c' (stmt_labels (label_count c) x) (2 * ctl_count x)"
      using Cons.prems(2) [of x c c'] by simp
  qed
  show ?case
    using appended_trans [OF a1 a2] by (simp add: lc algebra_simps)
qed

lemma gen_stmt_appended:
  "gen_stmt s cg = Inr cg' \<Longrightarrow> appended cg cg' (stmt_labels (label_count cg) s) (2 * ctl_count s)"
proof (induction s arbitrary: cg cg')
  case (Declaration name init)
  then show ?case using gen_declaration_appended by simp
next
  case (ExprStmt e)
  then show ?case using gen_expr_appended by simp
next
  case (If c t e)
  let ?k = "label_count cg"
  let ?cg2 = "cg\<lparr>label_count := ?k + 2\<rparr>"
  from gen_stmt_If [OF If.prems] obtain cg3 cg4 cg5 where
    g3: "gen_expr c ?cg2 = Inr cg3"
    and g4: "gen_stmts t (emit (''    beq $t0, $zero, '' @ ''else'' @ str_nat ?k) cg3) = Inr cg4"
    and g5: "(case e of None \<Rightarrow> Inr (emits [''    j '' @ ''endif'' @ str_nat (?k + 1),
                                       ''else'' @ str_nat ?k @ '':''] cg4)
         | Some ss \<Rightarrow> gen_stmts ss (emits [''    j '' @ ''endif'' @ str_nat (?k + 1),
                                       ''else'' @ str_nat ?k @ '':''] cg4)) = Inr cg5"
    and res: "cg' = emit (''endif'' @ str_nat (?k + 1) @ '':'') cg5"
    by blast
  let ?b = "emit (''    beq $t0, $zero, '' @ ''else'' @ str_nat ?k) cg3"
  let ?j = "emits [''    j '' @ ''endif'' @ str_nat (?k + 1), ''else'' @ str_nat ?k @ '':''] cg4"
  have a2: "appended cg ?cg2 [] 2" by (rule appended_two_labels)
  have a3: "appended ?cg2 cg3 [] 0" by (rule gen_expr_appended [OF g3])
  have ab: "appended cg3 ?b [] 0"
    by (rule appended_emit) (simp add: label_line_simps)
  have c3: "label_count ?b = ?k + 2"
    using appended_count [OF a3] appended_count [OF ab] by simp
  have a4: "appended ?b cg4 (stmts_labels (?k + 2) t) (2 * ctl_counts t)"
    using gen_stmts_from_elems [OF g4 If.IH(1)] unfolding c3 by simp
  have aj: "appended cg4 ?j [''else'' @ str_nat ?k @ '':''] 0"
    by (rule appended_emits) (simp add: label_line_simps)
  have cj: "label_count ?j = ?k + 2 + 2 * ctl_counts t"
    using appended_count [OF a4] appended_count [OF aj] c3 by simp
  have a5: "appended ?j cg5
      (case e of None \<Rightarrow> [] | Some ss \<Rightarrow> stmts_labels (?k + 2 + 2 * ctl_counts t) ss)
      (2 * (case e of None \<Rightarrow> 0 | Some ss \<Rightarrow> ctl_counts ss))"
  proof (cases e)
    case None
    then show ?thesis using g5 by (simp add: appended_refl)
  next
    case (Some ss)
    then have g: "gen_stmts ss ?j = Inr cg5" using g5 by simp
    have "appended ?j cg5 (stmts_labels (label_count ?j) ss) (2 * ctl_counts ss)"
    proof (rule gen_stmts_from_elems [OF g])
      fix x c c'
      assume "x \<in> set ss" and "gen_stmt x c = Inr c'"
      then show "appended c c' (stmt_labels (label_count c) x) (2 * ctl_count x)"
        using If.IH(2) [of ss x c c'] Some by simp
    qed
    then show ?thesis unfolding cj using Some by simp
  qed
  have ae: "appended cg5 cg' [''endif'' @ str_nat (?k + 1) @ '':''] 0"
    unfolding res by (rule appended_emit) (simp add: label_line_simps)
  have "appended cg cg'
      ([] @ [] @ [] @ stmts_labels (?k + 2) t @ [''else'' @ str_nat ?k @ '':'']
         @ (case e of None \<Rightarrow> [] | Some ss \<Rightarrow> stmts_labels (?k + 2 + 2 * ctl_counts t) ss)
         @ [''endif'' @ str_nat (?k + 1) @ '':''])
      (2 + (0 + (0 + (2 * ctl_counts t + (0
         + (2 * (case e of None \<Rightarrow> 0 | Some ss \<Rightarrow> ctl_counts ss) + 0))))))"
    by (intro appended_trans [OF a2] appended_trans [OF a3] appended_trans [OF ab]
          appended_trans [OF a4] appended_trans [OF aj] appended_trans [OF a5] ae)
  then show ?case
    by (cases e) (simp_all add: algebra_simps)
next
  case (While c b)
  let ?k = "label_count cg"
  let ?cg2 = "cg\<lparr>label_count := ?k + 2\<rparr>"
  let ?l = "emit (''while'' @ str_nat ?k @ '':'') ?cg2"
  from gen_stmt_While [OF While.prems] obtain cg3 cg4 where
    g3: "gen_expr c ?l = Inr cg3"
    and g4: "gen_stmts b (emit (''    beq $t0, $zero, '' @ ''endwhile'' @ str_nat (?k + 1)) cg3) = Inr cg4"
    and res: "cg' = emits [''    j '' @ ''while'' @ str_nat ?k,
                     ''endwhile'' @ str_nat (?k + 1) @ '':''] cg4"
    by blast
  let ?b = "emit (''    beq $t0, $zero, '' @ ''endwhile'' @ str_nat (?k + 1)) cg3"
  have a2: "appended cg ?cg2 [] 2" by (rule appended_two_labels)
  have al: "appended ?cg2 ?l [''while'' @ str_nat ?k @ '':''] 0"
    by (rule appended_emit) (simp add: label_line_simps)
  have a3: "appended ?l cg3 [] 0" by (rule gen_expr_appended [OF g3])
  have ab: "appended cg3 ?b [] 0"
    by (rule appended_emit) (simp add: label_line_simps)
  have c3: "label_count ?b = ?k + 2"
    using appended_count [OF al] appended_count [OF a3] appended_count [OF ab] by simp
  have a4: "appended ?b cg4 (stmts_labels (?k + 2) b) (2 * ctl_counts b)"
    using gen_stmts_from_elems [OF g4 While.IH] unfolding c3 by simp
  have ae: "appended cg4 cg' [''endwhile'' @ str_nat (?k + 1) @ '':''] 0"
    unfolding res by (rule appended_emits) (simp add: label_line_simps)
  have "appended cg cg'
      ([] @ [''while'' @ str_nat ?k @ '':''] @ [] @ [] @ stmts_labels (?k + 2) b
         @ [''endwhile'' @ str_nat (?k + 1) @ '':''])
      (2 + (0 + (0 + (0 + (2 * ctl_counts b + 0)))))"
    by (intro appended_trans [OF a2] appended_trans [OF al] appended_trans [OF a3]
          appended_trans [OF ab] appended_trans [OF a4] ae)
  then show ?case by (simp add: algebra_simps)
next
  case (For i c u b)
  let ?k = "label_count cg"
  let ?cg2 = "cg\<lparr>label_count := ?k + 2\<rparr>"
  from gen_stmt_For [OF For.prems] obtain cg3 cg5 cg6 cg7 where
    g3: "(case i of None \<Rightarrow> cg3 = ?cg2
      | Some (InitDeclaration name e) \<Rightarrow> gen_declaration name e ?cg2 = Inr cg3
      | Some (InitExpression e) \<Rightarrow> gen_expr e ?cg2 = Inr cg3)"
    and g5: "(case c of None \<Rightarrow> cg5 = emit (''for'' @ str_nat ?k @ '':'') cg3
        | Some c' \<Rightarrow>
           (\<exists>cg4. gen_expr c' (emit (''for'' @ str_nat ?k @ '':'') cg3) = Inr cg4
              \<and> cg5 = emit (''    beq $t0, $zero, '' @ ''endfor'' @ str_nat (?k + 1)) cg4))"
    and g6: "gen_stmts b cg5 = Inr cg6"
    and g7: "(case u of None \<Rightarrow> cg7 = cg6 | Some u' \<Rightarrow> gen_expr u' cg6 = Inr cg7)"
    and res: "cg' = emits [''    j '' @ ''for'' @ str_nat ?k,
                     ''endfor'' @ str_nat (?k + 1) @ '':''] cg7"
    by blast
  let ?l = "emit (''for'' @ str_nat ?k @ '':'') cg3"
  have a2: "appended cg ?cg2 [] 2" by (rule appended_two_labels)
  have a3: "appended ?cg2 cg3 [] 0"
    using g3 gen_declaration_appended gen_expr_appended appended_refl
    by (auto split: option.splits for_init.splits)
  have al: "appended cg3 ?l [''for'' @ str_nat ?k @ '':''] 0"
    by (rule appended_emit) (simp add: label_line_simps)
  have a5: "appended ?l cg5 [] 0"
  proof (cases c)
    case None
    then show ?thesis using g5 by (simp add: appended_refl)
  next
    case (Some c')
    then obtain cg4 where g4: "gen_expr c' ?l = Inr cg4"
      and r5: "cg5 = emit (''    beq $t0, $zero, '' @ ''endfor'' @ str_nat (?k + 1)) cg4"
      using g5 by auto
    have "appended cg4 cg5 [] 0"
      unfolding r5 by (rule appended_emit) (simp add: label_line_simps)
    then show ?thesis
      using gen_expr_appended [OF g4] appended_trans0 by blast
  qed
  have c5: "label_count cg5 = ?k + 2"
    using appended_count [OF a3] appended_count [OF al] appended_count [OF a5] by simp
  have a6: "appended cg5 cg6 (stmts_labels (?k + 2) b) (2 * ctl_counts b)"
    using gen_stmts_from_elems [OF g6 For.IH] unfolding c5 by simp
  have a7: "appended cg6 cg7 [] 0"
    using g7 gen_expr_appended appended_refl by (auto split: option.splits)
  have ae: "appended cg7 cg' [''endfor'' @ str_nat (?k + 1) @ '':''] 0"
    unfolding res by (rule appended_emits) (simp add: label_line_simps)
  have "appended cg cg'
      ([] @ [] @ [''for'' @ str_nat ?k @ '':''] @ [] @ stmts_labels (?k + 2) b @ []
         @ [''endfor'' @ str_nat (?k + 1) @ '':''])
      (2 + (0 + (0 + (0 + (2 * ctl_counts b + (0 + 0))))))"
    by (intro appended_trans [OF a2] appended_trans [OF a3] appended_trans [OF al]
          appended_trans [OF a5] appended_trans [OF a6] appended_trans [OF a7] ae)
  then show ?case by (simp add: algebra_simps)
next
  case (Return v)
  show ?case
  proof (cases v)
    case None
    then have "cg' = emit ''    j main_exit'' cg" using Return by simp
    then show ?thesis by (simp add: appended_emit label_line_simps)
  next
    case (Some e)
    then obtain cg1 where g: "gen_expr e cg = Inr cg1"
      and res: "cg' = emits [''    move $v0, $t0'', ''    j main_exit''] cg1"
      using Return by (auto simp: emits_def split: sum.splits)
    have "appended cg1 cg' [] 0"
      unfolding res by (rule appended_emits) (simp add: label_line_simps)
    then show ?thesis
      using gen_expr_appended [OF g] appended_trans0 by auto
  qed
qed

lemma gen_stmts_appended:
  "gen_stmts ss cg = Inr cg'
     \<Longrightarrow> appended cg cg' (stmts_labels (label_count cg) ss) (2 * ctl_counts ss)"
  by (erule gen_stmts_from_elems) (rule gen_stmt_appended)

subsection \<open>Functions and the whole program\<close>

lemma gen_function_shape:
  assumes "gen_function f cg = Inr cg'"
  shows "\<exists>b. output_buf cg' = output_buf cg @ prologue_lines (fname f) @ b @ epilogue_lines (fname f)
     \<and> filter is_label_line b = stmts_labels (label_count cg) (fbody f)
     \<and> label_count cg' = label_count cg + 2 * ctl_counts (fbody f)"
proof -
  let ?cg2 = "(emits (prologue_lines (fname f)) cg)\<lparr>vars := [], stack_offset := 0\<rparr>"
  from assms obtain cg3 where g: "gen_stmts (fbody f) ?cg2 = Inr cg3"
    and res: "cg' = emits (epilogue_lines (fname f)) cg3"
    by (auto simp: gen_function_def Let_def split: sum.splits)
  have c2: "label_count ?cg2 = label_count cg" and o2: "output_buf ?cg2 = output_buf cg @ prologue_lines (fname f)"
    by (simp_all add: label_count_emits output_buf_emits)
  from gen_stmts_appended [OF g] obtain b where
    b: "output_buf cg3 = output_buf ?cg2 @ b"
      "filter is_label_line b = stmts_labels (label_count ?cg2) (fbody f)"
      "label_count cg3 = label_count ?cg2 + 2 * ctl_counts (fbody f)"
    unfolding appended_def by blast
  have "output_buf cg' = output_buf cg @ prologue_lines (fname f) @ b @ epilogue_lines (fname f)"
    unfolding res output_buf_emits b(1) o2 by simp
  moreover have "filter is_label_line b = stmts_labels (label_count cg) (fbody f)"
    using b(2) unfolding c2 .
  moreover have "label_count cg' = label_count cg + 2 * ctl_counts (fbody f)"
    unfolding res label_count_emits b(3) c2 ..
  ultimately show ?thesis by blast
qed

lemma gen_functions_shape:
  "gen_functions fs cg = Inr cg' \<Longrightarrow>
   \<exists>bodies. length bodies = length fs
     \<and> output_buf cg' = output_buf cg
          @ concat (map2 (\<lambda>f b. prologue_lines (fname f) @ b @ epilogue_lines (fname f)) fs bodies)
     \<and> filter is_label_line (concat bodies) = funcs_labels (label_count cg) fs
     \<and> label_count cg' = label_count cg + 2 * program_ctl_count fs"
proof (induction fs arbitrary: cg)
  case Nil
  then show ?case by (simp add: program_ctl_count_def)
next
  case (Cons f fs)
  from Cons.prems obtain cg1 where g1: "gen_function f cg = Inr cg1"
    and g2: "gen_functions fs cg1 = Inr cg'"
    by (auto split: sum.splits)
  from gen_function_shape [OF g1] obtain b where
    b: "output_buf cg1 = output_buf cg @ prologue_lines (fname f) @ b @ epilogue_lines (fname f)"
      "filter is_label_line b = stmts_labels (label_count cg) (fbody f)"
      "label_count cg1 = label_count cg + 2 * ctl_counts (fbody f)"
    by blast
  from Cons.IH [OF g2] obtain bodies where
    bs: "length bodies = length fs"
      "output_buf cg' = output_buf cg1
          @ concat (map2 (\<lambda>f b. prologue_lines (fname f) @ b @ epilogue_lines (fname f)) fs bodies)"
      "filter is_label_line (concat bodies) = funcs_labels (label_count cg1) fs"
      "label_count cg' = label_count cg1 + 2 * program_ctl_count fs"
    by blast
  have pc: "program_ctl_count (f # fs) = ctl_counts (fbody f) + program_ctl_count fs"
    by (simp add: program_ctl_count_def)
  have "length (b # bodies) = length (f # fs)" using bs(1) by simp
  moreover have "output_buf cg' = output_buf cg
      @ concat (map2 (\<lambda>f b. prologue_lines (fname f) @ b @ epilogue_lines (fname f)) (f # fs) (b # bodies))"
    unfolding bs(2) b(1) by simp
  moreover have "filter is_label_line (concat (b # bodies)) = funcs_labels (label_count cg) (f # fs)"
    using b(2) bs(3) unfolding b(3) by simp
  moreover have "label_count cg' = label_count cg + 2 * program_ctl_count (f # fs)"
    unfolding bs(4) b(3) pc by simp
  ultimately show ?case by blast
qed

lemma funcs_labels_distinct: "distinct (funcs_labels k fs)"
  using funcs_labels_numbers [of k fs] by (simp add: distinct_map)

text \<open>
  C6. Label uniqueness. When \<open>gen_functions\<close> succeeds on a program, its output is, function
  by function, the prologue, the lines of the body and the epilogue. Among the lines of the
  bodies, those that define a label (they end with a colon) are the labels of the control
  constructs: there are exactly \<open>2 * N\<close> of them for a program with \<open>N\<close> \<^verbatim>\<open>if\<close>, \<^verbatim>\<open>while\<close> and
  \<^verbatim>\<open>for\<close> statements at any depth, they are pairwise distinct, and the label counter has
  grown by \<open>2 * N\<close>. Each one is a prefix followed by the value the counter had when the
  label was made, and these values are pairwise distinct and lie between the initial value
  of the counter and the final one.
\<close>

theorem control_labels_distinct:
  assumes "gen_functions fs cg = Inr cg'"
  shows "\<exists>bodies. length bodies = length fs
     \<and> output_buf cg' = output_buf cg
          @ concat (map2 (\<lambda>f b. prologue_lines (fname f) @ b @ epilogue_lines (fname f)) fs bodies)
     \<and> length (filter is_label_line (concat bodies)) = 2 * program_ctl_count fs
     \<and> distinct (filter is_label_line (concat bodies))
     \<and> distinct (map label_number (filter is_label_line (concat bodies)))
     \<and> set (map label_number (filter is_label_line (concat bodies)))
          \<subseteq> {label_count cg ..< label_count cg'}
     \<and> label_count cg' = label_count cg + 2 * program_ctl_count fs"
proof -
  from gen_functions_shape [OF assms] obtain bodies where
    bs: "length bodies = length fs"
      "output_buf cg' = output_buf cg
          @ concat (map2 (\<lambda>f b. prologue_lines (fname f) @ b @ epilogue_lines (fname f)) fs bodies)"
      "filter is_label_line (concat bodies) = funcs_labels (label_count cg) fs"
      "label_count cg' = label_count cg + 2 * program_ctl_count fs"
    by blast
  note n = funcs_labels_numbers [of "label_count cg" fs]
  have "length (filter is_label_line (concat bodies)) = 2 * program_ctl_count fs"
    unfolding bs(3) using n by simp
  moreover have "distinct (filter is_label_line (concat bodies))"
    unfolding bs(3) by (rule funcs_labels_distinct)
  moreover have "distinct (map label_number (filter is_label_line (concat bodies)))"
    unfolding bs(3) using n by simp
  moreover have "set (map label_number (filter is_label_line (concat bodies)))
          \<subseteq> {label_count cg ..< label_count cg'}"
    unfolding bs(3) bs(4) using n by simp
  ultimately show ?thesis using bs(1,2,4) by blast
qed

text \<open>
  A program with one construct of each kind, two of them nested in the third:
  \<^verbatim>\<open>int main(){ int i; if (1) { while (0) { i = 1; } } else { for (i = 0; i < 2; i++) { } } return 0; }\<close>
\<close>

definition nested_source :: string where
  "nested_source =
     ''int main(){ int i; if (1) { while (0) { i = 1; } } else { for (i = 0; i < 2; i++) { } } return 0; }''"

definition nested_program :: "func list" where
  "nested_program =
     [Function ''int'' ''main''
        [Declaration ''i'' None,
         If (Number 1)
            [While (Number 0) [ExprStmt (Assign (Var ''i'') (Number 1))]]
            (Some [For (Some (InitExpression (Assign (Var ''i'') (Number 0))))
                       (Some (BinOp ''<'' (Var ''i'') (Number 2)))
                       (Some (PostOp ''++'' (Var ''i''))) []]),
         Return (Some (Number 0))]]"

definition nested_generated :: codegen where
  "nested_generated = CodeGen\<lparr>output_buf :=
      [''main:'', ''    addi $sp, $sp, -8'', ''    sw $ra, 4($sp)'', ''    sw $fp, 0($sp)'',
       ''    move $fp, $sp'', ''    addi $sp, $sp, -4'', ''    li $t0, 1'',
       ''    beq $t0, $zero, else0'', ''while2:'', ''    li $t0, 0'',
       ''    beq $t0, $zero, endwhile3'', ''    li $t0, 1'', ''    sw $t0, -4($fp)'',
       ''    j while2'', ''endwhile3:'', ''    j endif1'', ''else0:'', ''    li $t0, 0'',
       ''    sw $t0, -4($fp)'', ''for4:'', ''    lw $t0, -4($fp)'', ''    addi $sp, $sp, -4'',
       ''    sw $t0, 0($sp)'', ''    li $t0, 2'', ''    move $t1, $t0'', ''    lw $t0, 0($sp)'',
       ''    addi $sp, $sp, 4'', ''    slt $t0, $t0, $t1'', ''    beq $t0, $zero, endfor5'',
       ''    lw $t0, -4($fp)'', ''    move $t2, $t0'', ''    addi $t0, $t0, 1'',
       ''    sw $t0, -4($fp)'', ''    move $t0, $t2'', ''    j for4'', ''endfor5:'', ''endif1:'',
       ''    li $t0, 0'', ''    move $v0, $t0'', ''    j main_exit'', ''main_exit:'',
       ''    move $sp, $fp'', ''    lw $fp, 0($sp)'', ''    lw $ra, 4($sp)'',
       ''    addi $sp, $sp, 8'', ''    jr $ra'', []],
     label_count := 6, vars := [(''i'', - 4)], stack_offset := 4\<rparr>"

lemma nested_parse:
  "(case tokenize nested_source of
      Inl e \<Rightarrow> False
    | Inr ts \<Rightarrow> (case parse 12 ts of Parsed ast n \<Rightarrow> ast = nested_program | _ \<Rightarrow> False))"
  by code_simp

lemma nested_gen: "gen_functions nested_program CodeGen = Inr nested_generated"
  by code_simp

lemma nested_count: "program_ctl_count nested_program = 3"
  by code_simp

theorem control_labels_distinct_witness:
  "\<exists>bodies. length bodies = length nested_program
     \<and> output_buf nested_generated = output_buf CodeGen
          @ concat (map2 (\<lambda>f b. prologue_lines (fname f) @ b @ epilogue_lines (fname f))
                      nested_program bodies)
     \<and> length (filter is_label_line (concat bodies)) = 2 * program_ctl_count nested_program
     \<and> distinct (filter is_label_line (concat bodies))
     \<and> distinct (map label_number (filter is_label_line (concat bodies)))
     \<and> set (map label_number (filter is_label_line (concat bodies)))
          \<subseteq> {label_count CodeGen ..< label_count nested_generated}
     \<and> label_count nested_generated = label_count CodeGen + 2 * program_ctl_count nested_program"
  by (rule control_labels_distinct [OF nested_gen])
end
